theory Spec2Isabelle
  imports Main "HOL-Library.Multiset"
begin

section \<open>futbin.py: constants, exceptions and values\<close>

text \<open>
  Python strings are modelled as \<open>string\<close>; every exception the module can raise is a
  value of \<open>exn\<close>, and a call that may raise returns \<open>exn + 'a\<close> with \<open>Inl\<close> for the
  exception.
\<close>

definition FUTBIN_URL :: string where
  "FUTBIN_URL = ''https://www.futbin.com''"

definition FIFA18_URL :: string where
  "FIFA18_URL = FUTBIN_URL @ ''/18''"

datatype exn =
    FailedRequestException string
  | KeyError string
  | TypeError
  | ValueError
  | AttributeError
  | TransportError string
  | NoObject

text \<open>
  \<open>TransportError\<close> stands for whatever the transport's future raises. \<open>NoObject\<close> is
  not an exception of Python: it is the model's answer where a reference holds no
  object, which a Python program cannot observe.
\<close>

text \<open>
  An attribute value of a parsed element is a string, or a list of tokens for a
  multi-valued attribute such as \<open>class\<close>.
\<close>

datatype attr_value = Str string | StrList "string list"

text \<open>
  The class of a string of the parsed tree, which the parser decides: ordinary text is
  a \<open>NavigableString\<close>, a comment a \<open>Comment\<close>; recent versions of the library give the
  contents of \<open>script\<close>, \<open>style\<close> and \<open>template\<close> elements the classes \<open>Script\<close>,
  \<open>Stylesheet\<close> and \<open>TemplateString\<close>; \<open>OtherString\<close> stands for the remaining classes
  (declarations, doctypes, processing instructions, ruby annotations).
\<close>

datatype string_class =
    NavigableString
  | CData
  | Comment
  | Script
  | Stylesheet
  | TemplateString
  | OtherString

datatype node =
    Text string_class string
  | Tag string "(string \<times> attr_value) list" "node list"

section \<open>Player\<close>

record Player =
  id' :: string
  name :: string
  url :: string
  data :: "node option"

text \<open>\<open>str.split(sep)\<close> for a one-character separator: the pieces between separators.\<close>

fun split :: "char \<Rightarrow> string \<Rightarrow> string list" where
  "split sep [] = [[]]"
| "split sep (c # cs) =
     (if c = sep then [] # split sep cs
      else (case split sep cs of
              [] \<Rightarrow> [[c]]
            | p # ps \<Rightarrow> (c # p) # ps))"

text \<open>
  \<open>id, name = url.split('/')[-2:]\<close>: the slice keeps the last two pieces (all of
  them when there are fewer), and the unpacking raises ValueError unless there are
  exactly two.
\<close>

definition from_url :: "string \<Rightarrow> node option \<Rightarrow> exn + Player" where
  "from_url u d =
     (let parts = split (CHR ''/'') u in
      case drop (length parts - 2) parts of
        [i, n] \<Rightarrow> Inr \<lparr>id' = i, name = n, url = u, data = d\<rparr>
      | _ \<Rightarrow> Inl ValueError)"

text \<open>
  \<open>self.data['data-player-resource']\<close>: subscripting an element reads its attribute
  dictionary and raises KeyError when the key is missing; subscripting \<open>None\<close> (or a
  string with a string key) raises TypeError.
\<close>

definition price_id :: "Player \<Rightarrow> exn + attr_value" where
  "price_id p =
     (case data p of
        None \<Rightarrow> Inl TypeError
      | Some (Text k s) \<Rightarrow> Inl TypeError
      | Some (Tag n as cs) \<Rightarrow>
          (case map_of as ''data-player-resource'' of
             None \<Rightarrow> Inl (KeyError ''data-player-resource'')
           | Some v \<Rightarrow> Inr v))"

section \<open>FutBinSession\<close>

definition DEFAULT_WORKERS :: int where
  "DEFAULT_WORKERS = 4"

text \<open>
  \<open>max_workers or DEFAULT_WORKERS\<close>: the left operand when it is truthy (an integer
  other than 0), else the default. \<open>None\<close> stands for the omitted argument.
\<close>

definition max_workers_or_default :: "int option \<Rightarrow> int" where
  "max_workers_or_default max_workers =
     (case max_workers of
        None \<Rightarrow> DEFAULT_WORKERS
      | Some w \<Rightarrow> if w = 0 then DEFAULT_WORKERS else w)"

text \<open>
  \<open>FuturesSession.__init__(max_workers=n)\<close>, the constructor of the library's session:
  it builds a thread pool of width \<open>n\<close>, and the pool raises ValueError unless \<open>n\<close> is
  greater than 0. The result is the width of the session's pool.
\<close>

definition FuturesSession :: "int \<Rightarrow> exn + int" where
  "FuturesSession n = (if n \<le> 0 then Inl ValueError else Inr n)"

text \<open>
  \<open>FutBinSession.__init__(max_workers=None)\<close>, called with no further argument (so that
  the library's session builds its own pool): the width of the pool of the session
  constructed, or the exception the construction raises.
\<close>

definition FutBinSession :: "int option \<Rightarrow> exn + int" where
  "FutBinSession max_workers = FuturesSession (max_workers_or_default max_workers)"

section \<open>The parsed document: the queries the extractors use\<close>

text \<open>
  The HTML parser is an external library; the document it returns is a tree of
  elements and strings. The functions below are the queries of that library the
  module calls, over the tree.
\<close>

text \<open>All elements and strings below a node, in document order.\<close>

fun descendants :: "node \<Rightarrow> node list" where
  "descendants (Text k s) = []"
| "descendants (Tag n as cs) = concat (map (\<lambda>c. c # descendants c) cs)"

text \<open>
  \<open>.text\<close> of an element such as a table cell: the strings below it whose class is
  exactly \<open>NavigableString\<close> or \<open>CData\<close>, concatenated in document order. Strings of
  every other class (comments, script and style contents) are left out.
\<close>

fun text_of :: "node \<Rightarrow> string" where
  "text_of (Text k s) = (if k = NavigableString \<or> k = CData then s else [])"
| "text_of (Tag n as cs) = concat (map text_of cs)"

text \<open>
  \<open>str.strip()\<close>: whitespace removed at both ends. The whitespace characters are those
  of Python's \<open>str.isspace\<close> among the first 256 code points.
\<close>

definition isspace :: "char \<Rightarrow> bool" where
  "isspace c = (of_char c \<in> {9, 10, 11, 12, 13, 28, 29, 30, 31, 32, 133, 160 :: nat})"

definition strip :: "string \<Rightarrow> string" where
  "strip s = rev (dropWhile isspace (rev (dropWhile isspace s)))"

definition isdigit :: "char \<Rightarrow> bool" where
  "isdigit c = (c \<in> set ''0123456789'')"

text \<open>
  \<open>re.compile(r'player_tr_\d+').search(s)\<close>: some position of \<open>s\<close> starts with
  \<open>player_tr_\<close> followed by at least one digit.
\<close>

fun filter_search :: "string \<Rightarrow> bool" where
  "filter_search [] = False"
| "filter_search (c # cs) =
     ((take 10 (c # cs) = ''player_tr_'' \<and>
       (case drop 10 (c # cs) of [] \<Rightarrow> False | d # r \<Rightarrow> isdigit d))
      \<or> filter_search cs)"

text \<open>\<open>re.compile('player/').search(s)\<close>: \<open>player/\<close> occurs in \<open>s\<close>.\<close>

fun href_filter_search :: "string \<Rightarrow> bool" where
  "href_filter_search [] = False"
| "href_filter_search (c # cs) = (take 7 (c # cs) = ''player/'' \<or> href_filter_search cs)"

text \<open>\<open>' '.join(tokens)\<close>.\<close>

fun join_space :: "string list \<Rightarrow> string" where
  "join_space [] = []"
| "join_space [t] = t"
| "join_space (t # ts) = t @ CHR '' '' # join_space ts"

text \<open>
  How the library matches an attribute value against a search criterion \<open>m\<close> (a regular
  expression's search, or equality with a string): a string is tested itself; of a
  multi-valued attribute each token is tested, and then the tokens joined by spaces.
\<close>

fun attr_matches :: "(string \<Rightarrow> bool) \<Rightarrow> attr_value \<Rightarrow> bool" where
  "attr_matches m (Str s) = m s"
| "attr_matches m (StrList ts) = (list_ex m ts \<or> m (join_space ts))"

text \<open>An absent attribute matches no criterion.\<close>

definition has_attr :: "string \<Rightarrow> (string \<Rightarrow> bool) \<Rightarrow> node \<Rightarrow> bool" where
  "has_attr k m x =
     (case x of
        Text c s \<Rightarrow> False
      | Tag n as cs \<Rightarrow> (case map_of as k of None \<Rightarrow> False | Some v \<Rightarrow> attr_matches m v))"

definition is_tag :: "string \<Rightarrow> node \<Rightarrow> bool" where
  "is_tag t x = (case x of Text k s \<Rightarrow> False | Tag n as cs \<Rightarrow> n = t)"

text \<open>\<open>soup.find_all(...)\<close>: every element below \<open>soup\<close> that passes the test, in document order.\<close>

definition soup_find_all :: "(node \<Rightarrow> bool) \<Rightarrow> node \<Rightarrow> node list" where
  "soup_find_all P soup = filter P (descendants soup)"

text \<open>\<open>soup.find(...)\<close>: the first such element, or \<open>None\<close>.\<close>

definition soup_find :: "(node \<Rightarrow> bool) \<Rightarrow> node \<Rightarrow> node option" where
  "soup_find P soup = (case soup_find_all P soup of [] \<Rightarrow> None | x # xs \<Rightarrow> Some x)"

section \<open>The transport and the objects of a session\<close>

record response =
  status_code :: int
  content :: string

datatype param_value = IntParam int | AttrParam attr_value

record request =
  req_url :: string
  req_params :: "(string \<times> param_value) list option"

text \<open>
  A future of the session: its number (the position of its request among the requests
  the session was handed) and the request. Its \<open>wrapper\<close> attribute, assigned after it is
  created, is kept in the heap.
\<close>

record Future =
  fid :: nat
  f_request :: request

text \<open>
  What the module takes from outside: \<open>get\<close> is the outcome of a future (a response, or
  the exception its \<open>result()\<close> raises); \<open>BeautifulSoup\<close> is the HTML parser;
  \<open>as_completed\<close> is the order in which the library yields a collection of futures;
  \<open>time\<close> is \<open>int(time.time())\<close>.
\<close>

record world =
  get :: "Future \<Rightarrow> exn + response"
  BeautifulSoup :: "string \<Rightarrow> node"
  as_completed :: "Future list \<Rightarrow> Future list"
  time :: int

text \<open>
  \<open>concurrent.futures.as_completed(fs)\<close> yields every future of \<open>set(fs)\<close> once, in the
  order they complete.
\<close>

definition completion_order :: "(Future list \<Rightarrow> Future list) \<Rightarrow> bool" where
  "completion_order f = (\<forall>fs. distinct (f fs) \<and> set (f fs) = set fs)"

text \<open>
  A wrapper object: the fields of \<open>FutBinFuture\<close> (\<open>url\<close> and \<open>future\<close>) and the
  attributes the subclasses and callers add (\<open>page\<close>, \<open>club\<close>, \<open>player\<close>), \<open>None\<close> while
  unset.
\<close>

record wrapper =
  w_url :: string
  future :: Future
  page :: "int option"
  club :: "string option"
  player :: "Player option"

text \<open>
  The objects of a session: \<open>submitted\<close> are the requests handed to \<open>session.get\<close>, in
  order; \<open>objects\<close> are the wrapper objects by address; \<open>wrapper_attr\<close> is the \<open>wrapper\<close>
  attribute of each future (by number), the address of a wrapper object.
\<close>

record heap =
  submitted :: "request list"
  objects :: "wrapper list"
  wrapper_attr :: "nat \<Rightarrow> nat option"

definition session0 :: heap where
  "session0 = \<lparr>submitted = [], objects = [], wrapper_attr = (\<lambda>f. None)\<rparr>"

text \<open>
  \<open>FutBinFuture.__init__\<close>: one request submitted, its future stored in the new object,
  and the object stored as the future's \<open>wrapper\<close>. The result is the new heap and the
  address of the object.
\<close>

definition FutBinFuture_init ::
  "heap \<Rightarrow> string \<Rightarrow> (string \<times> param_value) list option \<Rightarrow> heap \<times> nat" where
  "FutBinFuture_init h u ps =
     (let r = \<lparr>req_url = u, req_params = ps\<rparr>;
          f = \<lparr>fid = length (submitted h), f_request = r\<rparr>;
          a = length (objects h) in
      (\<lparr>submitted = submitted h @ [r],
        objects = objects h @ [\<lparr>w_url = u, future = f, page = None, club = None, player = None\<rparr>],
        wrapper_attr = (wrapper_attr h)(fid f \<mapsto> a)\<rparr>, a))"

text \<open>Reading an object through a reference; \<open>None\<close> for an address that holds no object.\<close>

definition deref :: "heap \<Rightarrow> nat \<Rightarrow> wrapper option" where
  "deref h a = (if a < length (objects h) then Some (objects h ! a) else None)"

text \<open>
  \<open>FutBinFuture.result\<close>: the outcome of the wrapper's future, an exception of the
  transport passed on, and FailedRequestException with the wrapper's URL unless the
  status is 200.
\<close>

definition FutBinFuture_result :: "world \<Rightarrow> wrapper \<Rightarrow> exn + response" where
  "FutBinFuture_result w x =
     (case get w (future x) of
        Inl e \<Rightarrow> Inl e
      | Inr r \<Rightarrow> if status_code r \<noteq> 200 then Inl (FailedRequestException (w_url x)) else Inr r)"

definition ParsedFuture_result :: "world \<Rightarrow> wrapper \<Rightarrow> exn + node" where
  "ParsedFuture_result w x =
     (case FutBinFuture_result w x of
        Inl e \<Rightarrow> Inl e
      | Inr r \<Rightarrow> Inr (BeautifulSoup w (content r)))"

section \<open>The four wrappers\<close>

text \<open>Assigning attributes of the object at an address.\<close>

definition setattr :: "heap \<Rightarrow> nat \<Rightarrow> (wrapper \<Rightarrow> wrapper) \<Rightarrow> heap" where
  "setattr h a upd = h\<lparr>objects := (objects h)[a := upd (objects h ! a)]\<rparr>"

definition ClubsPageFuture_init :: "heap \<Rightarrow> int \<Rightarrow> heap \<times> nat" where
  "ClubsPageFuture_init h n =
     (let (h1, a) = FutBinFuture_init h (FIFA18_URL @ ''/clubs'') (Some [(''page'', IntParam n)])
      in (setattr h1 a (\<lambda>x. x\<lparr>page := Some n\<rparr>), a))"

text \<open>
  The loop over the rows of \<open>ClubsPageFuture.result\<close>: \<open>row.find('td')\<close> is \<open>None\<close> for a
  row with no cell, and reading \<open>.text\<close> of \<open>None\<close> raises AttributeError.
\<close>

fun rows_loop :: "node list \<Rightarrow> string list \<Rightarrow> exn + string list" where
  "rows_loop [] result = Inr result"
| "rows_loop (row # rows) result =
     (case soup_find (is_tag ''td'') row of
        None \<Rightarrow> Inl AttributeError
      | Some td \<Rightarrow>
          (let c = strip (text_of td) in
           if c = ''No Results'' then Inr result
           else rows_loop rows (result @ [c])))"

definition ClubsPage_extract :: "node \<Rightarrow> exn + string list" where
  "ClubsPage_extract soup = rows_loop (soup_find_all (has_attr ''class'' filter_search) soup) []"

definition ClubsPageFuture_result :: "world \<Rightarrow> wrapper \<Rightarrow> exn + string list" where
  "ClubsPageFuture_result w x =
     (case ParsedFuture_result w x of
        Inl e \<Rightarrow> Inl e
      | Inr soup \<Rightarrow> ClubsPage_extract soup)"

definition ClubPlayersFuture_init :: "heap \<Rightarrow> string \<Rightarrow> heap \<times> nat" where
  "ClubPlayersFuture_init h c =
     (let (h1, a) = FutBinFuture_init h (FIFA18_URL @ ''/clubs/'' @ c) None
      in (setattr h1 a (\<lambda>x. x\<lparr>club := Some c\<rparr>), a))"

text \<open>
  \<open>l.attrs['href']\<close> and \<open>FUTBIN_URL + url\<close> for one link: KeyError without the
  attribute, TypeError when the value is not a string.
\<close>

definition link_url :: "node \<Rightarrow> exn + string" where
  "link_url l =
     (case l of
        Text k s \<Rightarrow> Inl AttributeError
      | Tag n as cs \<Rightarrow>
          (case map_of as ''href'' of
             None \<Rightarrow> Inl (KeyError ''href'')
           | Some (Str u) \<Rightarrow> Inr (FUTBIN_URL @ u)
           | Some (StrList ts) \<Rightarrow> Inl TypeError))"

text \<open>
  \<open>ClubPlayersFuture.result\<close> is a generator. Its items, in order: \<open>Inr\<close> a value it
  yields, \<open>Inl\<close> an exception it raises when asked for its next item (nothing after that
  item is reached). It fetches and parses when asked for its first item.
\<close>

definition ClubPlayersFuture_result :: "world \<Rightarrow> wrapper \<Rightarrow> (exn + string) list" where
  "ClubPlayersFuture_result w x =
     (case ParsedFuture_result w x of
        Inl e \<Rightarrow> [Inl e]
      | Inr soup \<Rightarrow>
          map link_url
            (soup_find_all (\<lambda>l. is_tag ''a'' l \<and> has_attr ''href'' href_filter_search l) soup))"

definition PlayerDataFuture_init :: "heap \<Rightarrow> string \<Rightarrow> heap \<times> nat" where
  "PlayerDataFuture_init h u = FutBinFuture_init h u None"

text \<open>\<open>soup.find('div', id='page-info')\<close>.\<close>

definition find_page_info :: "node \<Rightarrow> node option" where
  "find_page_info soup =
     soup_find (\<lambda>d. is_tag ''div'' d \<and> has_attr ''id'' (\<lambda>s. s = ''page-info'') d) soup"

definition PlayerDataFuture_result :: "world \<Rightarrow> wrapper \<Rightarrow> exn + Player" where
  "PlayerDataFuture_result w x =
     (case ParsedFuture_result w x of
        Inl e \<Rightarrow> Inl e
      | Inr soup \<Rightarrow> from_url (w_url x) (find_page_info soup))"

text \<open>
  \<open>PlayerPriceFuture.__init__(session, player, type='today', year='18')\<close>; \<open>None\<close> stands
  for an omitted keyword argument. The parameters are built, \<open>player.price_id\<close> among
  them, before the request is submitted.
\<close>

definition PlayerPriceFuture_init ::
  "world \<Rightarrow> heap \<Rightarrow> Player \<Rightarrow> string option \<Rightarrow> string option \<Rightarrow> exn + heap \<times> nat" where
  "PlayerPriceFuture_init w h p type_arg year_arg =
     (let ty = (case type_arg of None \<Rightarrow> ''today'' | Some t \<Rightarrow> t);
          year = (case year_arg of None \<Rightarrow> ''18'' | Some y \<Rightarrow> y) in
      case price_id p of
        Inl e \<Rightarrow> Inl e
      | Inr pid \<Rightarrow>
          (let (h1, a) =
                 FutBinFuture_init h (FUTBIN_URL @ ''/'' @ year @ ''/playerGraph'')
                   (Some [(''type'', AttrParam (Str ty)),
                          (''year'', AttrParam (Str year)),
                          (''player'', AttrParam pid),
                          (''_'', IntParam (time w))])
           in Inr (setattr h1 a (\<lambda>x. x\<lparr>player := Some p\<rparr>), a)))"

section \<open>Completion order\<close>

text \<open>\<open>[f.future for f in futures]\<close>, the wrappers given by address.\<close>

fun futures_of :: "heap \<Rightarrow> nat list \<Rightarrow> exn + Future list" where
  "futures_of h [] = Inr []"
| "futures_of h (a # as) =
     (case deref h a of
        None \<Rightarrow> Inl NoObject
      | Some x \<Rightarrow> (case futures_of h as of Inl e \<Rightarrow> Inl e | Inr fs \<Rightarrow> Inr (future x # fs)))"

text \<open>\<open>f.wrapper\<close>: AttributeError for a future that was never given the attribute.\<close>

definition wrapper_of :: "heap \<Rightarrow> Future \<Rightarrow> exn + nat" where
  "wrapper_of h f = (case wrapper_attr h (fid f) of None \<Rightarrow> Inl AttributeError | Some a \<Rightarrow> Inr a)"

fun yield_wrappers :: "heap \<Rightarrow> Future list \<Rightarrow> exn + nat list" where
  "yield_wrappers h [] = Inr []"
| "yield_wrappers h (f # fs) =
     (case wrapper_of h f of
        Inl e \<Rightarrow> Inl e
      | Inr a \<Rightarrow> (case yield_wrappers h fs of Inl e \<Rightarrow> Inl e | Inr as \<Rightarrow> Inr (a # as)))"

text \<open>
  \<open>_as_completed(futures)\<close> run to its end over a heap that does not change meanwhile:
  the wrappers it yields, in order.
\<close>

definition futbin_as_completed :: "world \<Rightarrow> heap \<Rightarrow> nat list \<Rightarrow> exn + nat list" where
  "futbin_as_completed w h ws =
     (case futures_of h ws of
        Inl e \<Rightarrow> Inl e
      | Inr fs \<Rightarrow> yield_wrappers h (as_completed w fs))"

section \<open>get_players_for_clubs\<close>

text \<open>The first loop: one ClubPlayersFuture per club.\<close>

fun request_clubs :: "heap \<Rightarrow> string list \<Rightarrow> nat list \<Rightarrow> heap \<times> nat list" where
  "request_clubs h [] futures = (h, futures)"
| "request_clubs h (c # cs) futures =
     (let (h1, a) = ClubPlayersFuture_init h c in request_clubs h1 cs (futures @ [a]))"

text \<open>
  The inner loop over the items of \<open>f.result()\<close>, \<open>f\<close> the wrapper at address \<open>a\<close>: a
  PlayerDataFuture per URL, given the club of \<open>f\<close>.
\<close>

fun request_players ::
  "heap \<Rightarrow> nat \<Rightarrow> (exn + string) list \<Rightarrow> nat list \<Rightarrow> exn + heap \<times> nat list" where
  "request_players h a [] futures2 = Inr (h, futures2)"
| "request_players h a (Inl e # items) futures2 = Inl e"
| "request_players h a (Inr u # items) futures2 =
     (let (h1, r) = PlayerDataFuture_init h u in
      case deref h1 a of
        None \<Rightarrow> Inl NoObject
      | Some x \<Rightarrow>
          (case club x of
             None \<Rightarrow> Inl AttributeError
           | Some c \<Rightarrow>
               request_players (setattr h1 r (\<lambda>y. y\<lparr>club := Some c\<rparr>)) a items (futures2 @ [r])))"

text \<open>
  The loop over \<open>_as_completed(futures)\<close>, given the futures in completion order: each
  step takes the wrapper of the next future from the heap as it is then.
\<close>

fun wave1 :: "world \<Rightarrow> heap \<Rightarrow> Future list \<Rightarrow> nat list \<Rightarrow> exn + heap \<times> nat list" where
  "wave1 w h [] futures2 = Inr (h, futures2)"
| "wave1 w h (f # fs) futures2 =
     (case wrapper_of h f of
        Inl e \<Rightarrow> Inl e
      | Inr a \<Rightarrow>
          (case deref h a of
             None \<Rightarrow> Inl NoObject
           | Some x \<Rightarrow>
               (case request_players h a (ClubPlayersFuture_result w x) futures2 of
                  Inl e \<Rightarrow> Inl e
                | Inr (h', futures2') \<Rightarrow> wave1 w h' fs futures2')))"

text \<open>
  \<open>result[f.club].append(p)\<close> on a \<open>defaultdict(list)\<close>: a missing key starts from the
  empty list.
\<close>

definition append_to :: "(string \<rightharpoonup> Player list) \<Rightarrow> string \<Rightarrow> Player \<Rightarrow> (string \<rightharpoonup> Player list)" where
  "append_to result c p = result(c \<mapsto> (case result c of None \<Rightarrow> [] | Some ps \<Rightarrow> ps) @ [p])"

fun wave2 ::
  "world \<Rightarrow> heap \<Rightarrow> Future list \<Rightarrow> (string \<rightharpoonup> Player list) \<Rightarrow> exn + (string \<rightharpoonup> Player list)" where
  "wave2 w h [] result = Inr result"
| "wave2 w h (f # fs) result =
     (case wrapper_of h f of
        Inl e \<Rightarrow> Inl e
      | Inr a \<Rightarrow>
          (case deref h a of
             None \<Rightarrow> Inl NoObject
           | Some x \<Rightarrow>
               (case PlayerDataFuture_result w x of
                  Inl e \<Rightarrow> Inl e
                | Inr p \<Rightarrow>
                    (case club x of
                       None \<Rightarrow> Inl AttributeError
                     | Some c \<Rightarrow> wave2 w h fs (append_to result c p)))))"

definition get_players_for_clubs :: "world \<Rightarrow> string list \<Rightarrow> exn + (string \<rightharpoonup> Player list)" where
  "get_players_for_clubs w clubs =
     (let (h1, futures) = request_clubs session0 clubs [] in
      case futures_of h1 futures of
        Inl e \<Rightarrow> Inl e
      | Inr fs1 \<Rightarrow>
          (case wave1 w h1 (as_completed w fs1) [] of
             Inl e \<Rightarrow> Inl e
           | Inr (h2, futures2) \<Rightarrow>
               (case futures_of h2 futures2 of
                  Inl e \<Rightarrow> Inl e
                | Inr fs2 \<Rightarrow> wave2 w h2 (as_completed w fs2) Map.empty)))"

section \<open>Specification-level functions\<close>

text \<open>The trimmed text of a row's first cell, \<open>None\<close> for a row with no cell.\<close>

definition first_cell_text :: "node \<Rightarrow> string option" where
  "first_cell_text row = map_option (\<lambda>td. strip (text_of td)) (soup_find (is_tag ''td'') row)"

text \<open>The rows a clubs page selects: the elements with a class matching the filter.\<close>

definition club_rows :: "node \<Rightarrow> node list" where
  "club_rows soup = soup_find_all (has_attr ''class'' filter_search) soup"

text \<open>
  The heap invariant that \<open>FutBinFuture.__init__\<close> sets up: the future of every wrapper
  object is one the session has handed out, and its \<open>wrapper\<close> attribute points back to
  that object.
\<close>

definition wf_heap :: "heap \<Rightarrow> bool" where
  "wf_heap h =
     (\<forall>a < length (objects h).
        fid (future (objects h ! a)) < length (submitted h) \<and>
        wrapper_attr h (fid (future (objects h ! a))) = Some a)"

text \<open>
  The wrapper that \<open>get_players_for_clubs\<close> creates for the club at position \<open>i\<close> of its
  argument: the futures of the first loop are numbered from 0 in a fresh session.
\<close>

definition club_wrapper :: "nat \<Rightarrow> string \<Rightarrow> wrapper" where
  "club_wrapper i c =
     \<lparr>w_url = FIFA18_URL @ ''/clubs/'' @ c,
      future = \<lparr>fid = i, f_request = \<lparr>req_url = FIFA18_URL @ ''/clubs/'' @ c, req_params = None\<rparr>\<rparr>,
      page = None, club = Some c, player = None\<rparr>"

text \<open>A fetch that fails: the future completes with a response whose status is not 200.\<close>

definition fetch_fails :: "world \<Rightarrow> wrapper \<Rightarrow> bool" where
  "fetch_fails w x = (case get w (future x) of Inl e \<Rightarrow> False | Inr r \<Rightarrow> status_code r \<noteq> 200)"

section \<open>The end-to-end scenario of the specification\<close>

text \<open>
  Two clubs, Arsenal and Chelsea. Chelsea's roster page links two players (and one
  page that is not a player's); every player page carries \<open>page-info\<close>. Arsenal's roster
  request is answered with the status given, and with a page that links no player. The
  completion order is a parameter.
\<close>

definition roster_page :: node where
  "roster_page =
     Tag ''[document]'' []
       [Tag ''a'' [(''href'', Str ''/18/player/1/hazard'')] [Text NavigableString ''Hazard''],
        Tag ''a'' [(''href'', Str ''/18/clubs'')] [Text NavigableString ''Clubs''],
        Tag ''a'' [(''href'', Str ''/18/player/2/kante'')] [Text NavigableString ''Kante'']]"

definition player_page :: node where
  "player_page =
     Tag ''[document]'' []
       [Tag ''div'' [(''id'', Str ''page-info''), (''data-player-resource'', Str ''158023'')] []]"

definition empty_page :: node where
  "empty_page = Tag ''[document]'' [] []"

definition scenario :: "int \<Rightarrow> (Future list \<Rightarrow> Future list) \<Rightarrow> world" where
  "scenario arsenal_status order =
     \<lparr>get = (\<lambda>f.
         if req_url (f_request f) = ''https://www.futbin.com/18/clubs/Arsenal''
         then Inr \<lparr>status_code = arsenal_status, content = ''''\<rparr>
         else if req_url (f_request f) = ''https://www.futbin.com/18/clubs/Chelsea''
         then Inr \<lparr>status_code = 200, content = ''roster''\<rparr>
         else Inr \<lparr>status_code = 200, content = ''player''\<rparr>),
      BeautifulSoup = (\<lambda>b.
         if b = ''roster'' then roster_page
         else if b = ''player'' then player_page
         else empty_page),
      as_completed = order,
      time = 1500000000\<rparr>"

text \<open>Two completion orders: as submitted, and reversed.\<close>

definition in_order :: "Future list \<Rightarrow> Future list" where
  "in_order fs = remdups fs"

definition reversed :: "Future list \<Rightarrow> Future list" where
  "reversed fs = rev (remdups fs)"

text \<open>\<open>h'\<close> has every object of \<open>h\<close>, unchanged, at the same address.\<close>

definition extends :: "heap \<Rightarrow> heap \<Rightarrow> bool" where
  "extends h h' =
     (length (objects h) \<le> length (objects h') \<and>
      (\<forall>b < length (objects h). objects h' ! b = objects h ! b))"

text \<open>The clubs carried by the wrappers at the addresses \<open>rs\<close>.\<close>

definition clubs_at :: "heap \<Rightarrow> nat list \<Rightarrow> string set" where
  "clubs_at h rs = {c. \<exists>r \<in> set rs. r < length (objects h) \<and> club (objects h ! r) = Some c}"

text \<open>The club of the wrapper a future points back to, \<open>None\<close> when there is none.\<close>

definition club_of :: "heap \<Rightarrow> Future \<Rightarrow> string option" where
  "club_of h f =
     (case wrapper_attr h (fid f) of
        None \<Rightarrow> None
      | Some a \<Rightarrow> (case deref h a of None \<Rightarrow> None | Some x \<Rightarrow> club x))"

text \<open>The wrappers of the first loop, for the clubs from position \<open>k\<close> on.\<close>

fun club_wrappers :: "nat \<Rightarrow> string list \<Rightarrow> wrapper list" where
  "club_wrappers k [] = []"
| "club_wrappers k (c # cs) = club_wrapper k c # club_wrappers (Suc k) cs"

text \<open>
  The heap after one pass of the inner loop's body: a PlayerDataFuture for \<open>u\<close> created
  and given the club \<open>c\<close>.
\<close>

definition player_step :: "heap \<Rightarrow> string \<Rightarrow> string \<Rightarrow> heap" where
  "player_step h u c =
     setattr (fst (PlayerDataFuture_init h u)) (snd (PlayerDataFuture_init h u))
       (\<lambda>y. y\<lparr>club := Some c\<rparr>)"

text \<open>
  Every future of \<open>order\<close> belongs to a wrapper of the heap \<open>h\<close> that carries a club.
\<close>

definition club_futures :: "heap \<Rightarrow> Future list \<Rightarrow> bool" where
  "club_futures h order =
     (\<forall>f \<in> set order. \<exists>b < length (objects h). future (objects h ! b) = f \<and> club (objects h ! b) \<noteq> None)"

text \<open>
  The wrapper that the inner loop of \<open>get_players_for_clubs\<close> creates for the URL \<open>u\<close> of a
  roster page of the club \<open>c\<close>; \<open>k\<close> is the number of its future.
\<close>

definition player_wrapper :: "nat \<Rightarrow> string \<Rightarrow> string \<Rightarrow> wrapper" where
  "player_wrapper k u c =
     \<lparr>w_url = u,
      future = \<lparr>fid = k, f_request = \<lparr>req_url = u, req_params = None\<rparr>\<rparr>,
      page = None, club = Some c, player = None\<rparr>"

text \<open>
  The Player \<open>p\<close> was resolved for the club \<open>c\<close>: a roster page requested for \<open>c\<close> yielded
  a URL, and the player-detail wrapper for that URL, carrying the club \<open>c\<close>, resolved to
  \<open>p\<close>.
\<close>

definition resolved_for :: "world \<Rightarrow> string list \<Rightarrow> string \<Rightarrow> Player \<Rightarrow> bool" where
  "resolved_for w clubs c p =
     (\<exists>j u k. j < length clubs \<and> clubs ! j = c
        \<and> Inr u \<in> set (ClubPlayersFuture_result w (club_wrapper j c))
        \<and> PlayerDataFuture_result w (player_wrapper k u c) = Inr p)"

text \<open>
  The requests a session has been handed when the first two loops of
  \<open>get_players_for_clubs\<close> are through (the third loop submits none).
\<close>

definition requests_of_get_players_for_clubs :: "world \<Rightarrow> string list \<Rightarrow> exn + request list" where
  "requests_of_get_players_for_clubs w clubs =
     (let (h1, futures) = request_clubs session0 clubs [] in
      case futures_of h1 futures of
        Inl e \<Rightarrow> Inl e
      | Inr fs1 \<Rightarrow>
          (case wave1 w h1 (as_completed w fs1) [] of
             Inl e \<Rightarrow> Inl e
           | Inr (h2, futures2) \<Rightarrow> Inr (submitted h2)))"

section \<open>Strings and URLs\<close>

lemma split_not_Nil: "split sep s \<noteq> []"
  by (induction s) (auto split: list.splits)

lemma split_no_sep: "sep \<notin> set s \<Longrightarrow> split sep s = [s]"
  by (induction s) auto

lemma split_append_sep: "split sep (p @ sep # s) = split sep p @ split sep s"
  by (induction p) (auto simp: split_not_Nil split: list.splits)

lemma split_length_sep:
  assumes "sep \<in> set s"
  shows "2 \<le> length (split sep s)"
proof -
  from assms obtain p q where "s = p @ sep # q"
    by (meson split_list)
  then have "split sep s = split sep p @ split sep q"
    by (simp add: split_append_sep)
  moreover have "1 \<le> length (split sep p)" and "1 \<le> length (split sep q)"
    using split_not_Nil [of sep p] split_not_Nil [of sep q]
    by (simp_all add: Suc_le_eq)
  ultimately show ?thesis by simp
qed

lemma drop_last_two:
  "2 \<le> length xs \<Longrightarrow> drop (length xs - 2) xs = [xs ! (length xs - 2), last xs]"
proof (induction xs rule: rev_induct)
  case Nil
  then show ?case by simp
next
  case (snoc x xs)
  then have "xs \<noteq> []" by auto
  then obtain ys y where xs: "xs = ys @ [y]"
    by (metis rev_exhaust)
  show ?case by (simp add: xs nth_append)
qed

lemma from_url_parts:
  "2 \<le> length (split (CHR ''/'') u) \<Longrightarrow>
     from_url u d =
       Inr \<lparr>id' = split (CHR ''/'') u ! (length (split (CHR ''/'') u) - 2),
            name = last (split (CHR ''/'') u), url = u, data = d\<rparr>"
  by (simp add: from_url_def Let_def drop_last_two)

section \<open>Player.from_url\<close>

text \<open>
  C5. For every URL that splits at \<open>/\<close> into at least two pieces, \<open>Player.from_url\<close>
  returns a Player whose id is the second-to-last piece, whose name is the last piece
  and whose URL is the URL given, unchanged (the data is passed through). The URL
  \<open>https://host/18/players/158023/l-messi\<close> gives id \<open>158023\<close> and name \<open>l-messi\<close>.
\<close>

theorem from_url_last_two_segments:
  assumes "2 \<le> length (split (CHR ''/'') u)"
  shows "from_url u d =
           Inr \<lparr>id' = split (CHR ''/'') u ! (length (split (CHR ''/'') u) - 2),
                name = last (split (CHR ''/'') u), url = u, data = d\<rparr>
         \<and> from_url ''https://host/18/players/158023/l-messi'' d =
           Inr \<lparr>id' = ''158023'', name = ''l-messi'',
                url = ''https://host/18/players/158023/l-messi'', data = d\<rparr>"
proof
  show "from_url u d =
          Inr \<lparr>id' = split (CHR ''/'') u ! (length (split (CHR ''/'') u) - 2),
               name = last (split (CHR ''/'') u), url = u, data = d\<rparr>"
    using assms by (rule from_url_parts)
  show "from_url ''https://host/18/players/158023/l-messi'' d =
          Inr \<lparr>id' = ''158023'', name = ''l-messi'',
               url = ''https://host/18/players/158023/l-messi'', data = d\<rparr>"
    by (simp add: from_url_def)
qed

theorem from_url_last_two_segments_witness:
  "from_url ''https://www.futbin.com/18/player/20801/c-ronaldo'' None =
     Inr \<lparr>id' = ''20801'', name = ''c-ronaldo'',
          url = ''https://www.futbin.com/18/player/20801/c-ronaldo'', data = None\<rparr>"
proof -
  have h: "2 \<le> length (split (CHR ''/'') ''https://www.futbin.com/18/player/20801/c-ronaldo'')"
    by simp
  show ?thesis
    using from_url_last_two_segments [OF h, of None] by simp
qed

text \<open>
  The same in terms of the URL's text: whatever precedes them, the two segments after
  the last two separators become id and name.
\<close>

lemma from_url_segments:
  assumes "CHR ''/'' \<notin> set i" and "CHR ''/'' \<notin> set n"
  shows "from_url (p @ ''/'' @ i @ ''/'' @ n) d =
           Inr \<lparr>id' = i, name = n, url = p @ ''/'' @ i @ ''/'' @ n, data = d\<rparr>"
proof -
  have "split (CHR ''/'') (p @ ''/'' @ i @ ''/'' @ n) = split (CHR ''/'') p @ [i, n]"
    using assms split_append_sep [of "CHR ''/''" "p @ ''/'' @ i" n]
      split_append_sep [of "CHR ''/''" p i]
    by (simp add: split_no_sep)
  then show ?thesis by (simp add: from_url_def Let_def)
qed

section \<open>Player.price_id\<close>

text \<open>
  C7. For a Player whose data is an element, \<open>price_id\<close> returns the value of the
  attribute \<open>data-player-resource\<close> unchanged when the element has it, and raises
  KeyError for that key, returning no fallback value, when it has not. With the
  attributes \<open>{"data-player-resource": "158023"}\<close> it returns \<open>"158023"\<close>. A Player with
  no data element at all has no fallback either: reading \<open>price_id\<close> raises TypeError.
\<close>

theorem price_id_key:
  "price_id (p\<lparr>data := Some (Tag t as cs)\<rparr>) =
     (case map_of as ''data-player-resource'' of
        Some v \<Rightarrow> Inr v
      | None \<Rightarrow> Inl (KeyError ''data-player-resource''))
   \<and> price_id (p\<lparr>data := Some (Tag ''div'' [(''data-player-resource'', Str ''158023'')] [])\<rparr>) =
       Inr (Str ''158023'')
   \<and> price_id (p\<lparr>data := Some (Tag ''div'' [(''id'', Str ''page-info'')] [])\<rparr>) =
       Inl (KeyError ''data-player-resource'')
   \<and> price_id (p\<lparr>data := None\<rparr>) = Inl TypeError"
  by (simp add: price_id_def split: option.splits)

section \<open>FutBinSession\<close>

text \<open>
  C10, as the code has it. With no \<open>max_workers\<close> the width of the pool is 4; a width
  \<open>w\<close> of at least 1 is used as given; a width of 0 is replaced by the default 4; with
  a negative width the construction raises ValueError.
\<close>

theorem FutBinSession_width:
  "FutBinSession None = Inr 4
   \<and> (1 \<le> w \<longrightarrow> FutBinSession (Some w) = Inr w)
   \<and> FutBinSession (Some 0) = Inr 4
   \<and> (w < 0 \<longrightarrow> FutBinSession (Some w) = Inl ValueError)"
  by (simp add: FutBinSession_def FuturesSession_def max_workers_or_default_def DEFAULT_WORKERS_def)

theorem FutBinSession_width_witness:
  "FutBinSession None = Inr 4 \<and> FutBinSession (Some 8) = Inr 8
   \<and> FutBinSession (Some 0) = Inr 4 \<and> FutBinSession (Some (- 1)) = Inl ValueError"
  using FutBinSession_width [of 8] FutBinSession_width [of "- 1"] by simp

text \<open>
  The claim as stated, that every width given is used, fails at the width 0, where the
  pool has the width 4.
\<close>

theorem FutBinSession_width_counterexample:
  "FutBinSession (Some 0) = Inr 4 \<and> FutBinSession (Some 0) \<noteq> Inr 0"
  by (simp add: FutBinSession_def FuturesSession_def max_workers_or_default_def DEFAULT_WORKERS_def)

section \<open>FutBinFuture.result\<close>

text \<open>
  C3. For a wrapper whose future completed with a response: \<open>result()\<close> raises
  FailedRequestException with the wrapper's URL if and only if the status is not 200,
  and returns the response itself when the status is 200. The outcome of a wrapper
  depends on its own future only: any other wrapper \<open>y\<close> of the batch whose response has
  status 200 resolves to that response, whatever the status of \<open>x\<close>.
\<close>

theorem FutBinFuture_result_status:
  assumes "get w (future x) = Inr r"
  shows "(FutBinFuture_result w x = Inl (FailedRequestException (w_url x))) = (status_code r \<noteq> 200)
         \<and> (FutBinFuture_result w x = Inr r) = (status_code r = 200)
         \<and> (\<forall>y r'. get w (future y) = Inr r' \<and> status_code r' = 200
               \<longrightarrow> FutBinFuture_result w y = Inr r')"
  using assms by (simp add: FutBinFuture_result_def)

theorem FutBinFuture_result_status_witness:
  "FutBinFuture_result
     \<lparr>get = (\<lambda>f. if fid f = 0 then Inr \<lparr>status_code = 404, content = ''not found''\<rparr>
                  else Inr \<lparr>status_code = 200, content = ''ok''\<rparr>),
      BeautifulSoup = (\<lambda>b. Tag ''[document]'' [] []), as_completed = remdups, time = 0\<rparr>
     \<lparr>w_url = ''https://www.futbin.com/18/clubs/Arsenal'',
      future = \<lparr>fid = 0, f_request = \<lparr>req_url = ''https://www.futbin.com/18/clubs/Arsenal'', req_params = None\<rparr>\<rparr>,
      page = None, club = Some ''Arsenal'', player = None\<rparr>
   = Inl (FailedRequestException ''https://www.futbin.com/18/clubs/Arsenal'')
   \<and> FutBinFuture_result
     \<lparr>get = (\<lambda>f. if fid f = 0 then Inr \<lparr>status_code = 404, content = ''not found''\<rparr>
                  else Inr \<lparr>status_code = 200, content = ''ok''\<rparr>),
      BeautifulSoup = (\<lambda>b. Tag ''[document]'' [] []), as_completed = remdups, time = 0\<rparr>
     \<lparr>w_url = ''https://www.futbin.com/18/clubs/Chelsea'',
      future = \<lparr>fid = 1, f_request = \<lparr>req_url = ''https://www.futbin.com/18/clubs/Chelsea'', req_params = None\<rparr>\<rparr>,
      page = None, club = Some ''Chelsea'', player = None\<rparr>
   = Inr \<lparr>status_code = 200, content = ''ok''\<rparr>"
  using FutBinFuture_result_status
    [of "\<lparr>get = (\<lambda>f. if fid f = 0 then Inr \<lparr>status_code = 404, content = ''not found''\<rparr>
                  else Inr \<lparr>status_code = 200, content = ''ok''\<rparr>),
      BeautifulSoup = (\<lambda>b. Tag ''[document]'' [] []), as_completed = remdups, time = 0\<rparr>"
       "\<lparr>w_url = ''https://www.futbin.com/18/clubs/Arsenal'',
      future = \<lparr>fid = 0, f_request = \<lparr>req_url = ''https://www.futbin.com/18/clubs/Arsenal'', req_params = None\<rparr>\<rparr>,
      page = None, club = Some ''Arsenal'', player = None\<rparr>"
       "\<lparr>status_code = 404, content = ''not found''\<rparr>"]
  by (simp add: FutBinFuture_result_def)

section \<open>ClubsPageFuture.result\<close>

lemma rows_loop_takeWhile:
  "rows_loop rows acc =
     (case those (takeWhile (\<lambda>t. t \<noteq> Some ''No Results'') (map first_cell_text rows)) of
        None \<Rightarrow> Inl AttributeError
      | Some cs \<Rightarrow> Inr (acc @ cs))"
proof (induction rows arbitrary: acc)
  case Nil
  then show ?case by simp
next
  case (Cons row rows)
  show ?case
  proof (cases "soup_find (is_tag ''td'') row")
    case None
    then show ?thesis by (simp add: first_cell_text_def)
  next
    case (Some td)
    then show ?thesis
      by (simp add: first_cell_text_def Cons.IH Let_def split: option.splits)
  qed
qed

lemma ClubsPage_extract_takeWhile:
  "ClubsPage_extract soup =
     (case those (takeWhile (\<lambda>t. t \<noteq> Some ''No Results'') (map first_cell_text (club_rows soup))) of
        None \<Rightarrow> Inl AttributeError
      | Some cs \<Rightarrow> Inr cs)"
  by (simp add: ClubsPage_extract_def club_rows_def rows_loop_takeWhile split: option.splits)

text \<open>
  C4, as the code has it. The extraction goes through the rows whose class matches
  \<open>player_tr_<digits>\<close> in document order, up to the first row whose trimmed first-cell
  text is \<open>No Results\<close>, which it excludes. When each of the rows before that one has a
  cell, the result is their trimmed first-cell texts, in order; when one of them has
  no cell, the extraction fails with AttributeError. The text of a cell is that of its
  ordinary strings: comments and script contents in a cell count neither for the
  club's name nor for the comparison with \<open>No Results\<close>. The page with the rows Arsenal,
  Chelsea, No Results gives Arsenal, Chelsea, and a page with no matching row gives the
  empty sequence.
\<close>

theorem ClubsPage_extract_rows:
  "ClubsPage_extract soup =
     (case those (takeWhile (\<lambda>t. t \<noteq> Some ''No Results'') (map first_cell_text (club_rows soup))) of
        None \<Rightarrow> Inl AttributeError
      | Some cs \<Rightarrow> Inr cs)
   \<and> ClubsPage_extract
       (Tag ''[document]'' []
         [Tag ''tr'' [(''class'', StrList [''player_tr_1''])] [Tag ''td'' [] [Text NavigableString ''Arsenal'']],
          Tag ''tr'' [(''class'', StrList [''player_tr_2''])] [Tag ''td'' [] [Text NavigableString ''Chelsea'']],
          Tag ''tr'' [(''class'', StrList [''player_tr_3''])] [Tag ''td'' [] [Text NavigableString ''No Results'']]])
       = Inr [''Arsenal'', ''Chelsea'']
   \<and> ClubsPage_extract
       (Tag ''[document]'' []
         [Tag ''tr'' [(''class'', StrList [''player_tr_1''])]
            [Tag ''td'' [] [Text NavigableString ''Arsenal'', Tag ''script'' [] [Text Script ''x''],
                            Text Comment ''hidden'']],
          Tag ''tr'' [(''class'', StrList [''player_tr_2''])]
            [Tag ''td'' [] [Text Comment ''c'', Text NavigableString '' No Results '']],
          Tag ''tr'' [(''class'', StrList [''player_tr_3''])] []])
       = Inr [''Arsenal'']
   \<and> (club_rows soup = [] \<longrightarrow> ClubsPage_extract soup = Inr [])"
proof (intro conjI)
  show "ClubsPage_extract
       (Tag ''[document]'' []
         [Tag ''tr'' [(''class'', StrList [''player_tr_1''])]
            [Tag ''td'' [] [Text NavigableString ''Arsenal'', Tag ''script'' [] [Text Script ''x''],
                            Text Comment ''hidden'']],
          Tag ''tr'' [(''class'', StrList [''player_tr_2''])]
            [Tag ''td'' [] [Text Comment ''c'', Text NavigableString '' No Results '']],
          Tag ''tr'' [(''class'', StrList [''player_tr_3''])] []])
       = Inr [''Arsenal'']"
    by code_simp
  show "ClubsPage_extract soup =
     (case those (takeWhile (\<lambda>t. t \<noteq> Some ''No Results'') (map first_cell_text (club_rows soup))) of
        None \<Rightarrow> Inl AttributeError
      | Some cs \<Rightarrow> Inr cs)"
    by (rule ClubsPage_extract_takeWhile)
  show "ClubsPage_extract
       (Tag ''[document]'' []
         [Tag ''tr'' [(''class'', StrList [''player_tr_1''])] [Tag ''td'' [] [Text NavigableString ''Arsenal'']],
          Tag ''tr'' [(''class'', StrList [''player_tr_2''])] [Tag ''td'' [] [Text NavigableString ''Chelsea'']],
          Tag ''tr'' [(''class'', StrList [''player_tr_3''])] [Tag ''td'' [] [Text NavigableString ''No Results'']]])
       = Inr [''Arsenal'', ''Chelsea'']"
    by code_simp
  show "club_rows soup = [] \<longrightarrow> ClubsPage_extract soup = Inr []"
    by (simp add: ClubsPage_extract_takeWhile)
qed

theorem ClubsPage_extract_rows_witness:
  "ClubsPage_extract (Tag ''[document]'' [] [Tag ''p'' [] [Text NavigableString ''nothing here'']]) = Inr []"
proof -
  have h: "club_rows (Tag ''[document]'' [] [Tag ''p'' [] [Text NavigableString ''nothing here'']]) = []"
    by code_simp
  show ?thesis
    using ClubsPage_extract_rows [of "Tag ''[document]'' [] [Tag ''p'' [] [Text NavigableString ''nothing here'']]"] h
    by simp
qed

text \<open>
  The claim as stated, that the extraction returns the texts for every page, fails
  on a page with a matching row that has no cell.
\<close>

theorem ClubsPage_extract_counterexample:
  "ClubsPage_extract
     (Tag ''[document]'' [] [Tag ''tr'' [(''class'', StrList [''player_tr_1''])] []])
   = Inl AttributeError"
  by code_simp

section \<open>PlayerDataFuture.result\<close>

text \<open>
  C6. For a player-detail wrapper whose URL contains a \<open>/\<close> (as every URL the transport
  can fetch does) and whose future completed with a response: with status 200,
  \<open>result()\<close> returns a Player, made from the wrapper's URL, whose data is whatever
  \<open>find('div', id='page-info')\<close> gave, \<open>None\<close> included, and for data \<open>None\<close> that Player's
  \<open>price_id\<close> fails (with TypeError) when it is read; with any other status, \<open>result()\<close>
  raises the request-failure exception. So a missing \<open>page-info\<close> never makes
  \<open>result()\<close> raise.
\<close>

theorem PlayerDataFuture_result_page_info:
  assumes "get w (future x) = Inr r" and "CHR ''/'' \<in> set (w_url x)"
  shows "(status_code r = 200 \<longrightarrow>
           (\<exists>p. PlayerDataFuture_result w x = Inr p \<and> url p = w_url x
                \<and> data p = find_page_info (BeautifulSoup w (content r))
                \<and> (data p = None \<longrightarrow> price_id p = Inl TypeError)))
         \<and> (status_code r \<noteq> 200 \<longrightarrow>
              PlayerDataFuture_result w x = Inl (FailedRequestException (w_url x)))"
  using assms split_length_sep [of "CHR ''/''" "w_url x"]
  by (simp add: PlayerDataFuture_result_def ParsedFuture_result_def FutBinFuture_result_def
      from_url_parts price_id_def)

text \<open>
  In the scenario, a player's URL requested from a transport that answers every such
  request with a page without \<open>page-info\<close> (the empty page).
\<close>

theorem PlayerDataFuture_result_page_info_witness:
  "\<exists>p. PlayerDataFuture_result ((scenario 200 in_order)\<lparr>BeautifulSoup := (\<lambda>b. empty_page)\<rparr>)
         \<lparr>w_url = ''https://www.futbin.com/18/player/1/hazard'',
          future = \<lparr>fid = 2, f_request = \<lparr>req_url = ''https://www.futbin.com/18/player/1/hazard'',
                                               req_params = None\<rparr>\<rparr>,
          page = None, club = Some ''Chelsea'', player = None\<rparr> = Inr p
       \<and> url p = ''https://www.futbin.com/18/player/1/hazard''
       \<and> data p = None \<and> price_id p = Inl TypeError"
proof -
  let ?w = "(scenario 200 in_order)\<lparr>BeautifulSoup := (\<lambda>b. empty_page)\<rparr>"
  let ?x = "\<lparr>w_url = ''https://www.futbin.com/18/player/1/hazard'',
          future = \<lparr>fid = 2, f_request = \<lparr>req_url = ''https://www.futbin.com/18/player/1/hazard'',
                                               req_params = None\<rparr>\<rparr>,
          page = None, club = Some ''Chelsea'', player = None\<rparr>"
  have g: "get ?w (future ?x) = Inr \<lparr>status_code = 200, content = ''player''\<rparr>"
    by (simp add: scenario_def)
  have s: "CHR ''/'' \<in> set (w_url ?x)"
    by simp
  have n: "find_page_info (BeautifulSoup ?w ''player'') = None"
    by (simp add: find_page_info_def soup_find_def soup_find_all_def empty_page_def)
  show ?thesis
    using PlayerDataFuture_result_page_info [OF g s] n by auto
qed

section \<open>The heap of a session\<close>

lemma FutBinFuture_init_simps:
  "snd (FutBinFuture_init h u ps) = length (objects h)"
  "objects (fst (FutBinFuture_init h u ps)) =
     objects h @ [\<lparr>w_url = u, future = \<lparr>fid = length (submitted h), f_request = \<lparr>req_url = u, req_params = ps\<rparr>\<rparr>,
                   page = None, club = None, player = None\<rparr>]"
  "submitted (fst (FutBinFuture_init h u ps)) = submitted h @ [\<lparr>req_url = u, req_params = ps\<rparr>]"
  "wrapper_attr (fst (FutBinFuture_init h u ps)) = (wrapper_attr h)(length (submitted h) \<mapsto> length (objects h))"
  by (simp_all add: FutBinFuture_init_def Let_def)

lemma setattr_simps:
  "objects (setattr h a upd) = (objects h)[a := upd (objects h ! a)]"
  "submitted (setattr h a upd) = submitted h"
  "wrapper_attr (setattr h a upd) = wrapper_attr h"
  by (simp_all add: setattr_def)

lemma wf_heap_session0: "wf_heap session0"
  by (simp add: wf_heap_def session0_def)

lemma wf_heap_FutBinFuture_init:
  assumes "wf_heap h"
  shows "wf_heap (fst (FutBinFuture_init h u ps))"
  unfolding wf_heap_def
proof (intro allI impI)
  fix a
  assume "a < length (objects (fst (FutBinFuture_init h u ps)))"
  then have a: "a < length (objects h) \<or> a = length (objects h)"
    by (auto simp: FutBinFuture_init_simps)
  then show "fid (future (objects (fst (FutBinFuture_init h u ps)) ! a))
               < length (submitted (fst (FutBinFuture_init h u ps))) \<and>
             wrapper_attr (fst (FutBinFuture_init h u ps))
               (fid (future (objects (fst (FutBinFuture_init h u ps)) ! a))) = Some a"
  proof
    assume lt: "a < length (objects h)"
    with assms have "fid (future (objects h ! a)) < length (submitted h)"
      and "wrapper_attr h (fid (future (objects h ! a))) = Some a"
      by (simp_all add: wf_heap_def)
    with lt show ?thesis
      by (simp add: FutBinFuture_init_simps nth_append)
  next
    assume "a = length (objects h)"
    then show ?thesis
      by (simp add: FutBinFuture_init_simps nth_append)
  qed
qed

lemma future_update_nth:
  assumes "\<And>x. future (upd x) = future x"
  shows "future (xs[a := upd (xs ! a)] ! b) = future (xs ! b)"
proof (cases "a = b")
  case True
  show ?thesis
  proof (cases "b < length xs")
    case True
    with \<open>a = b\<close> show ?thesis by (simp add: assms)
  next
    case False
    with \<open>a = b\<close> show ?thesis by (simp add: list_update_beyond)
  qed
next
  case False
  then show ?thesis by simp
qed

lemma wf_heap_setattr:
  assumes "wf_heap h" and "\<And>x. future (upd x) = future x"
  shows "wf_heap (setattr h a upd)"
  using assms(1)
  by (simp add: wf_heap_def setattr_simps future_update_nth [OF assms(2)])

lemma wf_heap_wrapper_of:
  "wf_heap h \<Longrightarrow> a < length (objects h) \<Longrightarrow> wrapper_of h (future (objects h ! a)) = Inr a"
  by (simp add: wf_heap_def wrapper_of_def)

lemma futures_of_valid:
  "\<forall>a \<in> set ws. a < length (objects h) \<Longrightarrow>
     futures_of h ws = Inr (map (\<lambda>a. future (objects h ! a)) ws)"
  by (induction ws) (simp_all add: deref_def)

lemma futures_of_Inr:
  "futures_of h ws = Inr fs \<Longrightarrow>
     (\<forall>a \<in> set ws. a < length (objects h)) \<and> fs = map (\<lambda>a. future (objects h ! a)) ws"
  by (induction ws arbitrary: fs) (auto simp: deref_def split: if_splits sum.splits)

lemma yield_wrappers_map:
  "\<forall>f \<in> set fs. wrapper_of h f = Inr (g f) \<Longrightarrow> yield_wrappers h fs = Inr (map g fs)"
  by (induction fs) simp_all

lemma completion_order_mset:
  assumes "completion_order s" and "distinct fs"
  shows "mset (s fs) = mset fs"
  using assms by (simp add: completion_order_def set_eq_iff_mset_eq_distinct [symmetric])


lemma wf_heap_ClubPlayersFuture_init: "wf_heap h \<Longrightarrow> wf_heap (fst (ClubPlayersFuture_init h c))"
  by (simp add: ClubPlayersFuture_init_def split_beta wf_heap_setattr wf_heap_FutBinFuture_init)

lemma wf_heap_ClubsPageFuture_init: "wf_heap h \<Longrightarrow> wf_heap (fst (ClubsPageFuture_init h n))"
  by (simp add: ClubsPageFuture_init_def split_beta wf_heap_setattr wf_heap_FutBinFuture_init)

lemma wf_heap_PlayerDataFuture_init: "wf_heap h \<Longrightarrow> wf_heap (fst (PlayerDataFuture_init h u))"
  by (simp add: PlayerDataFuture_init_def wf_heap_FutBinFuture_init)

lemma wf_heap_PlayerPriceFuture_init:
  "wf_heap h \<Longrightarrow> PlayerPriceFuture_init w h p ty yr = Inr (h', a) \<Longrightarrow> wf_heap h'"
  by (auto simp: PlayerPriceFuture_init_def Let_def split_beta wf_heap_setattr
      wf_heap_FutBinFuture_init split: sum.splits)

lemma wf_heap_request_clubs: "wf_heap h \<Longrightarrow> wf_heap (fst (request_clubs h cs acc))"
proof (induction cs arbitrary: h acc)
  case Nil
  then show ?case by simp
next
  case (Cons c cs)
  have "wf_heap (fst (ClubPlayersFuture_init h c))"
    using Cons.prems by (rule wf_heap_ClubPlayersFuture_init)
  then show ?case
    by (simp add: split_beta Cons.IH)
qed

lemma completion_order_in_order: "completion_order in_order"
  by (simp add: completion_order_def in_order_def)

lemma completion_order_reversed: "completion_order reversed"
  by (simp add: completion_order_def reversed_def)

section \<open>The requests issued\<close>

lemma roster_urls:
  assumes "Inr u \<in> set (ClubPlayersFuture_result w x)"
  shows "\<exists>href. u = ''https://www.futbin.com'' @ href \<and> href_filter_search href"
proof -
  from assms obtain soup l
    where l: "l \<in> set (soup_find_all (\<lambda>l. is_tag ''a'' l \<and> has_attr ''href'' href_filter_search l) soup)"
      and u: "link_url l = Inr u"
    by (auto simp: ClubPlayersFuture_result_def split: sum.splits)
  from l have m: "has_attr ''href'' href_filter_search l"
    by (simp add: soup_find_all_def)
  from u m show ?thesis
    by (auto simp: link_url_def has_attr_def FUTBIN_URL_def
        split: node.splits option.splits attr_value.splits)
qed

lemma request_players_submitted:
  "request_players h a (map Inr us) acc = Inr (h', acc') \<Longrightarrow>
     submitted h' = submitted h @ map (\<lambda>u. \<lparr>req_url = u, req_params = None\<rparr>) us"
proof (induction us arbitrary: h acc)
  case Nil
  then show ?case by simp
next
  case (Cons u us)
  let ?h1 = "fst (PlayerDataFuture_init h u)"
  let ?r = "snd (PlayerDataFuture_init h u)"
  from Cons.prems obtain c where
    rec: "request_players (setattr ?h1 ?r (\<lambda>y. y\<lparr>club := Some c\<rparr>)) a (map Inr us) (acc @ [?r])
            = Inr (h', acc')"
    by (auto simp: split_beta split: option.splits)
  have "submitted (setattr ?h1 ?r (\<lambda>y. y\<lparr>club := Some c\<rparr>)) =
          submitted h @ [\<lparr>req_url = u, req_params = None\<rparr>]"
    by (simp add: setattr_simps PlayerDataFuture_init_def FutBinFuture_init_simps)
  with Cons.IH [OF rec] show ?case by simp
qed

text \<open>
  C9, as the code has it. The module submits four kinds of request, through the four
  wrapper classes. A ClubsPageFuture submits a request for
  \<open>https://www.futbin.com/18/clubs\<close> with the parameter \<open>page\<close> = the page number; a
  ClubPlayersFuture one for \<open>https://www.futbin.com/18/clubs/<club>\<close> with no parameters;
  a PlayerPriceFuture, for a player whose \<open>price_id\<close> can be read, one for
  \<open>https://www.futbin.com/<year>/playerGraph\<close> with the parameters \<open>type\<close> (default
  \<open>today\<close>), \<open>year\<close> (default \<open>18\<close>), \<open>player\<close> = the player's \<open>price_id\<close> and \<open>_\<close> = the time
  in whole seconds. The fourth kind has none of these shapes: a PlayerDataFuture
  submits a request for the URL it is given, with no parameters; the inner loop of
  \<open>get_players_for_clubs\<close> submits one such request for each URL of a roster page, and
  each of these URLs is \<open>https://www.futbin.com\<close> followed by the \<open>href\<close> of a link of the
  page, an \<open>href\<close> that contains \<open>player/\<close>.
\<close>

theorem requests_issued:
  "submitted (fst (ClubsPageFuture_init h n)) =
     submitted h @ [\<lparr>req_url = ''https://www.futbin.com/18/clubs'',
                     req_params = Some [(''page'', IntParam n)]\<rparr>]
   \<and> submitted (fst (ClubPlayersFuture_init h c)) =
     submitted h @ [\<lparr>req_url = ''https://www.futbin.com/18/clubs/'' @ c, req_params = None\<rparr>]
   \<and> (price_id p = Inr pid \<longrightarrow>
       (\<exists>h' a. PlayerPriceFuture_init w h p ty yr = Inr (h', a) \<and>
          submitted h' = submitted h @
            [\<lparr>req_url = ''https://www.futbin.com/'' @ (case yr of None \<Rightarrow> ''18'' | Some y \<Rightarrow> y)
                         @ ''/playerGraph'',
              req_params =
                Some [(''type'', AttrParam (Str (case ty of None \<Rightarrow> ''today'' | Some t \<Rightarrow> t))),
                      (''year'', AttrParam (Str (case yr of None \<Rightarrow> ''18'' | Some y \<Rightarrow> y))),
                      (''player'', AttrParam pid),
                      (''_'', IntParam (time w))]\<rparr>]))
   \<and> submitted (fst (PlayerDataFuture_init h u)) =
     submitted h @ [\<lparr>req_url = u, req_params = None\<rparr>]
   \<and> (\<forall>h' acc'. request_players h a (map Inr us) acc = Inr (h', acc') \<longrightarrow>
         submitted h' = submitted h @ map (\<lambda>u. \<lparr>req_url = u, req_params = None\<rparr>) us)
   \<and> (\<forall>v. Inr v \<in> set (ClubPlayersFuture_result w x) \<longrightarrow>
         (\<exists>href. v = ''https://www.futbin.com'' @ href \<and> href_filter_search href))"
proof (intro conjI)
  show "submitted (fst (ClubsPageFuture_init h n)) =
     submitted h @ [\<lparr>req_url = ''https://www.futbin.com/18/clubs'',
                     req_params = Some [(''page'', IntParam n)]\<rparr>]"
    by (simp add: ClubsPageFuture_init_def FutBinFuture_init_def setattr_def FIFA18_URL_def
        FUTBIN_URL_def Let_def)
  show "submitted (fst (ClubPlayersFuture_init h c)) =
     submitted h @ [\<lparr>req_url = ''https://www.futbin.com/18/clubs/'' @ c, req_params = None\<rparr>]"
    by (simp add: ClubPlayersFuture_init_def FutBinFuture_init_def setattr_def FIFA18_URL_def
        FUTBIN_URL_def Let_def)
  show "price_id p = Inr pid \<longrightarrow>
       (\<exists>h' a. PlayerPriceFuture_init w h p ty yr = Inr (h', a) \<and>
          submitted h' = submitted h @
            [\<lparr>req_url = ''https://www.futbin.com/'' @ (case yr of None \<Rightarrow> ''18'' | Some y \<Rightarrow> y)
                         @ ''/playerGraph'',
              req_params =
                Some [(''type'', AttrParam (Str (case ty of None \<Rightarrow> ''today'' | Some t \<Rightarrow> t))),
                      (''year'', AttrParam (Str (case yr of None \<Rightarrow> ''18'' | Some y \<Rightarrow> y))),
                      (''player'', AttrParam pid),
                      (''_'', IntParam (time w))]\<rparr>])"
    by (simp add: PlayerPriceFuture_init_def FutBinFuture_init_def setattr_def FUTBIN_URL_def Let_def)
  show "submitted (fst (PlayerDataFuture_init h u)) =
     submitted h @ [\<lparr>req_url = u, req_params = None\<rparr>]"
    by (simp add: PlayerDataFuture_init_def FutBinFuture_init_simps)
  show "\<forall>h' acc'. request_players h a (map Inr us) acc = Inr (h', acc') \<longrightarrow>
         submitted h' = submitted h @ map (\<lambda>u. \<lparr>req_url = u, req_params = None\<rparr>) us"
    by (blast intro: request_players_submitted)
  show "\<forall>v. Inr v \<in> set (ClubPlayersFuture_result w x) \<longrightarrow>
         (\<exists>href. v = ''https://www.futbin.com'' @ href \<and> href_filter_search href)"
    by (blast intro: roster_urls)
qed

text \<open>
  In the scenario: the price request for a player, and the URLs of Chelsea's roster
  page, each the host followed by an \<open>href\<close> containing \<open>player/\<close>.
\<close>

theorem requests_issued_witness:
  "(\<exists>h' a. PlayerPriceFuture_init (scenario 200 in_order) session0
       \<lparr>id' = ''158023'', name = ''l-messi'', url = ''https://www.futbin.com/18/player/158023/l-messi'',
        data = Some (Tag ''div'' [(''data-player-resource'', Str ''158023'')] [])\<rparr> None None
       = Inr (h', a)
     \<and> submitted h' =
         [\<lparr>req_url = ''https://www.futbin.com/18/playerGraph'',
           req_params = Some [(''type'', AttrParam (Str ''today'')),
                              (''year'', AttrParam (Str ''18'')),
                              (''player'', AttrParam (Str ''158023'')),
                              (''_'', IntParam 1500000000)]\<rparr>])
   \<and> (\<exists>href. ''https://www.futbin.com/18/player/1/hazard'' = ''https://www.futbin.com'' @ href
          \<and> href_filter_search href)"
proof -
  let ?w = "scenario 200 in_order"
  let ?p = "\<lparr>id' = ''158023'', name = ''l-messi'', url = ''https://www.futbin.com/18/player/158023/l-messi'',
        data = Some (Tag ''div'' [(''data-player-resource'', Str ''158023'')] [])\<rparr>"
  have p: "price_id ?p = Inr (Str ''158023'')"
    by (simp add: price_id_def)
  have items: "ClubPlayersFuture_result ?w (club_wrapper 1 ''Chelsea'') =
                 [Inr ''https://www.futbin.com/18/player/1/hazard'',
                  Inr ''https://www.futbin.com/18/player/2/kante'']"
    by code_simp
  have mem: "Inr ''https://www.futbin.com/18/player/1/hazard''
               \<in> set (ClubPlayersFuture_result ?w (club_wrapper 1 ''Chelsea''))"
    by (simp only: items) simp
  note r = requests_issued [of session0 0 "[]" ?p "Str ''158023''" ?w None None "[]" 0 "[]" "[]"
      "club_wrapper 1 ''Chelsea''"]
  from r p have "\<exists>h' a. PlayerPriceFuture_init ?w session0 ?p None None = Inr (h', a)
     \<and> submitted h' =
         [\<lparr>req_url = ''https://www.futbin.com/18/playerGraph'',
           req_params = Some [(''type'', AttrParam (Str ''today'')),
                              (''year'', AttrParam (Str ''18'')),
                              (''player'', AttrParam (Str ''158023'')),
                              (''_'', IntParam 1500000000)]\<rparr>]"
    by (simp add: session0_def scenario_def)
  moreover from r mem
  have "\<exists>href. ''https://www.futbin.com/18/player/1/hazard'' = ''https://www.futbin.com'' @ href
          \<and> href_filter_search href"
    by blast
  ultimately show ?thesis by blast
qed

text \<open>
  The claim as stated, that every request has one of the three shapes, fails in the
  scenario: of the four requests \<open>get_players_for_clubs\<close> submits for Arsenal and
  Chelsea, the last two go to player pages.
\<close>

theorem requests_issued_counterexample:
  "requests_of_get_players_for_clubs (scenario 200 in_order) [''Arsenal'', ''Chelsea''] =
     Inr [\<lparr>req_url = ''https://www.futbin.com/18/clubs/Arsenal'', req_params = None\<rparr>,
          \<lparr>req_url = ''https://www.futbin.com/18/clubs/Chelsea'', req_params = None\<rparr>,
          \<lparr>req_url = ''https://www.futbin.com/18/player/1/hazard'', req_params = None\<rparr>,
          \<lparr>req_url = ''https://www.futbin.com/18/player/2/kante'', req_params = None\<rparr>]"
  by code_simp

section \<open>_as_completed\<close>

text \<open>
  C2. In a heap where every wrapper's future points back to it, as
  \<open>FutBinFuture.__init__\<close> leaves it, and for every order in which the library may yield
  the futures: iterating \<open>_as_completed\<close> over N distinct wrappers yields those N wrappers,
  each exactly once.
\<close>

theorem as_completed_each_once:
  assumes wf: "wf_heap h"
    and co: "completion_order (as_completed w)"
    and dist: "distinct ws"
    and valid: "\<forall>a \<in> set ws. a < length (objects h)"
  shows "\<exists>out. futbin_as_completed w h ws = Inr out \<and> mset out = mset ws \<and> length out = length ws \<and> distinct out"
proof -
  let ?fut = "\<lambda>a. future (objects h ! a)"
  let ?g = "\<lambda>f. the (wrapper_attr h (fid f))"
  let ?fs = "map ?fut ws"
  have gfut: "?g (?fut a) = a" if "a \<in> set ws" for a
    using wf valid that by (simp add: wf_heap_def)
  have inj: "inj_on ?fut (set ws)"
    by (rule inj_on_inverseI [where g = ?g]) (rule gfut)
  have dfs: "distinct ?fs"
    using dist inj by (simp add: distinct_map)
  have ms: "mset (as_completed w ?fs) = mset ?fs"
    using co dfs by (rule completion_order_mset)
  have "\<forall>f \<in> set (as_completed w ?fs). wrapper_of h f = Inr (?g f)"
  proof
    fix f
    assume "f \<in> set (as_completed w ?fs)"
    then have "f \<in> set ?fs"
      using co by (simp add: completion_order_def)
    then obtain a where "a \<in> set ws" and "f = ?fut a" by auto
    then show "wrapper_of h f = Inr (?g f)"
      using wf valid by (simp add: wf_heap_def wrapper_of_def)
  qed
  then have yw: "yield_wrappers h (as_completed w ?fs) = Inr (map ?g (as_completed w ?fs))"
    by (rule yield_wrappers_map)
  have "mset (map ?g (as_completed w ?fs)) = image_mset ?g (mset (as_completed w ?fs))"
    by simp
  also have "\<dots> = image_mset ?g (mset ?fs)"
    by (simp only: ms)
  also have "\<dots> = mset (map (\<lambda>a. ?g (?fut a)) ws)"
    by (simp add: multiset.map_comp comp_def)
  also have "\<dots> = mset ws"
    using gfut by (simp cong: map_cong)
  finally have res: "mset (map ?g (as_completed w ?fs)) = mset ws" .
  have "futbin_as_completed w h ws = Inr (map ?g (as_completed w ?fs))"
    using valid yw by (simp add: futbin_as_completed_def futures_of_valid)
  moreover have "length (map ?g (as_completed w ?fs)) = length ws"
    using res by (metis size_mset)
  moreover have "distinct (map ?g (as_completed w ?fs))"
    using res dist by (metis mset_eq_imp_distinct_iff)
  ultimately show ?thesis using res by blast
qed

theorem as_completed_each_once_witness:
  "\<exists>out. futbin_as_completed (scenario 200 reversed)
            (fst (request_clubs session0 [''Arsenal'', ''Chelsea'', ''Spurs''] [])) [0, 1, 2] = Inr out
         \<and> mset out = mset [0, 1, 2] \<and> length out = length [0, 1, 2 :: nat] \<and> distinct out"
proof -
  define h where "h = fst (request_clubs session0 [''Arsenal'', ''Chelsea'', ''Spurs''] [])"
  have wf: "wf_heap h"
    unfolding h_def using wf_heap_session0 by (rule wf_heap_request_clubs)
  have co: "completion_order (as_completed (scenario 200 reversed))"
    by (simp add: scenario_def completion_order_reversed)
  have len: "length (objects h) = 3"
    unfolding h_def by code_simp
  have valid: "\<forall>a \<in> set [0, 1, 2]. a < length (objects h)"
    using len by simp
  have dist: "distinct [0, 1, 2 :: nat]"
    by simp
  have "\<exists>out. futbin_as_completed (scenario 200 reversed) h [0, 1, 2] = Inr out
         \<and> mset out = mset [0, 1, 2] \<and> length out = length [0, 1, 2 :: nat] \<and> distinct out"
    using wf co dist valid by (rule as_completed_each_once)
  then show ?thesis
    unfolding h_def .
qed

section \<open>The first loop of get_players_for_clubs\<close>

lemma init_setattr_objects:
  "objects (setattr (fst (FutBinFuture_init h u ps)) (snd (FutBinFuture_init h u ps)) upd) =
     objects h @ [upd \<lparr>w_url = u,
                        future = \<lparr>fid = length (submitted h), f_request = \<lparr>req_url = u, req_params = ps\<rparr>\<rparr>,
                        page = None, club = None, player = None\<rparr>]"
  by (simp add: FutBinFuture_init_simps setattr_simps)

lemma ClubPlayersFuture_init_objects:
  assumes "length (objects h) = length (submitted h)"
  shows "objects (fst (ClubPlayersFuture_init h c)) = objects h @ [club_wrapper (length (objects h)) c]"
    and "snd (ClubPlayersFuture_init h c) = length (objects h)"
    and "length (submitted (fst (ClubPlayersFuture_init h c))) = Suc (length (submitted h))"
proof -
  show "objects (fst (ClubPlayersFuture_init h c)) = objects h @ [club_wrapper (length (objects h)) c]"
    by (simp add: ClubPlayersFuture_init_def split_beta init_setattr_objects club_wrapper_def assms)
  show "snd (ClubPlayersFuture_init h c) = length (objects h)"
    by (simp add: ClubPlayersFuture_init_def split_beta FutBinFuture_init_simps)
  show "length (submitted (fst (ClubPlayersFuture_init h c))) = Suc (length (submitted h))"
    by (simp add: ClubPlayersFuture_init_def split_beta FutBinFuture_init_simps setattr_simps)
qed

lemma request_clubs_objects:
  assumes "length (objects h) = length (submitted h)"
  shows "objects (fst (request_clubs h cs acc)) = objects h @ club_wrappers (length (objects h)) cs
         \<and> snd (request_clubs h cs acc) = acc @ [length (objects h)..<length (objects h) + length cs]"
  using assms
proof (induction cs arbitrary: h acc)
  case Nil
  then show ?case by simp
next
  case (Cons c cs)
  let ?h1 = "fst (ClubPlayersFuture_init h c)"
  have len: "length (objects ?h1) = length (submitted ?h1)"
    using Cons.prems by (simp add: ClubPlayersFuture_init_objects)
  have l1: "length (objects ?h1) = Suc (length (objects h))"
    using Cons.prems by (simp add: ClubPlayersFuture_init_objects)
  let ?k = "length (objects h)"
  have s1: "snd (ClubPlayersFuture_init h c) = ?k"
    using Cons.prems by (rule ClubPlayersFuture_init_objects)
  have o1: "objects ?h1 = objects h @ [club_wrapper ?k c]"
    using Cons.prems by (rule ClubPlayersFuture_init_objects)
  have ih: "objects (fst (request_clubs ?h1 cs (acc @ [?k]))) = objects ?h1 @ club_wrappers (Suc ?k) cs
            \<and> snd (request_clubs ?h1 cs (acc @ [?k])) = (acc @ [?k]) @ [Suc ?k..<Suc ?k + length cs]"
    using Cons.IH [OF len, of "acc @ [?k]"] by (simp only: l1)
  have u: "[?k..<?k + length (c # cs)] = ?k # [Suc ?k..<Suc ?k + length cs]"
    by (simp add: upt_conv_Cons del: upt_Suc)
  have step: "request_clubs h (c # cs) acc = request_clubs ?h1 cs (acc @ [?k])"
    by (simp add: split_beta s1)
  show ?case
    by (simp only: step ih u o1 club_wrappers.simps append_assoc append_Cons append_Nil simp_thms)
qed

lemma club_wrappers_length: "length (club_wrappers k cs) = length cs"
  by (induction cs arbitrary: k) simp_all

lemma club_wrappers_nth: "i < length cs \<Longrightarrow> club_wrappers k cs ! i = club_wrapper (k + i) (cs ! i)"
proof (induction cs arbitrary: k i)
  case Nil
  then show ?case by simp
next
  case (Cons c cs)
  then show ?case by (cases i) simp_all
qed

lemma request_clubs_session0:
  "objects (fst (request_clubs session0 clubs [])) = club_wrappers 0 clubs"
  "snd (request_clubs session0 clubs []) = [0..<length clubs]"
  using request_clubs_objects [of session0 clubs "[]"]
  by (simp_all add: session0_def)

section \<open>The inner loop: one PlayerDataFuture per URL\<close>

lemma extends_refl: "extends h h"
  by (simp add: extends_def)

lemma extends_trans: "extends h1 h2 \<Longrightarrow> extends h2 h3 \<Longrightarrow> extends h1 h3"
  by (auto simp: extends_def)

lemma player_step_objects:
  "objects (player_step h u c) =
     objects h @ [\<lparr>w_url = u,
                   future = \<lparr>fid = length (submitted h), f_request = \<lparr>req_url = u, req_params = None\<rparr>\<rparr>,
                   page = None, club = Some c, player = None\<rparr>]"
  by (simp add: player_step_def PlayerDataFuture_init_def init_setattr_objects)

lemma player_step_length: "length (objects (player_step h u c)) = Suc (length (objects h))"
  by (simp add: player_step_objects)

lemma player_step_wf: "wf_heap h \<Longrightarrow> wf_heap (player_step h u c)"
  by (simp add: player_step_def wf_heap_setattr wf_heap_PlayerDataFuture_init)

lemma player_step_extends: "extends h (player_step h u c)"
  by (simp add: extends_def player_step_objects nth_append)

lemma request_players_Cons:
  assumes "a < length (objects h)"
  shows "request_players h a (Inr u # items) acc =
           (case club (objects h ! a) of
              None \<Rightarrow> Inl AttributeError
            | Some c \<Rightarrow> request_players (player_step h u c) a items (acc @ [length (objects h)]))"
  using assms
  by (simp add: split_beta PlayerDataFuture_init_def FutBinFuture_init_simps deref_def nth_append
      player_step_def split: option.splits)

lemma request_players_Inr:
  assumes "request_players h a items acc = Inr (h', acc')"
    and "wf_heap h" and "a < length (objects h)"
  shows "wf_heap h' \<and> extends h h'
         \<and> length (objects h') = length (objects h) + length items
         \<and> acc' = acc @ [length (objects h)..<length (objects h')]
         \<and> (\<forall>r. length (objects h) \<le> r \<and> r < length (objects h')
                \<longrightarrow> club (objects h' ! r) = club (objects h ! a))
         \<and> (\<forall>it \<in> set items. \<not> isl it)"
  using assms
proof (induction items arbitrary: h acc)
  case Nil
  then show ?case by (auto simp: extends_refl)
next
  case (Cons it items)
  show ?case
  proof (cases it)
    case (Inl e)
    with Cons.prems show ?thesis by simp
  next
    case (Inr u)
    from Cons.prems(1) Inr Cons.prems(3)
    obtain c where c: "club (objects h ! a) = Some c"
      and rec: "request_players (player_step h u c) a items (acc @ [length (objects h)]) = Inr (h', acc')"
      by (auto simp: request_players_Cons simp del: request_players.simps(3) split: option.splits)
    let ?hs = "player_step h u c"
    have wfs: "wf_heap ?hs" using Cons.prems(2) by (rule player_step_wf)
    have as: "a < length (objects ?hs)" using Cons.prems(3) by (simp add: player_step_length)
    note ih = Cons.IH [OF rec wfs as]
    have same: "objects ?hs ! a = objects h ! a"
      using Cons.prems(3) by (simp add: player_step_objects nth_append)
    have new: "club (objects ?hs ! length (objects h)) = Some c"
      by (simp add: player_step_objects)
    have e: "extends h h'"
      using player_step_extends ih by (blast intro: extends_trans)
    have len: "length (objects h') = length (objects h) + length (it # items)"
      using ih by (simp add: player_step_length)
    have acc: "acc' = acc @ [length (objects h)..<length (objects h')]"
    proof -
      have "[length (objects h)..<length (objects h')] =
              length (objects h) # [Suc (length (objects h))..<length (objects h')]"
        using len by (simp add: upt_conv_Cons del: upt_Suc)
      with ih show ?thesis by (simp add: player_step_length)
    qed
    have clubs: "club (objects h' ! r) = club (objects h ! a)"
      if "length (objects h) \<le> r \<and> r < length (objects h')" for r
    proof (cases "r = length (objects h)")
      case True
      have "objects h' ! r = objects ?hs ! r"
        using ih True by (simp add: extends_def player_step_length)
      with True new c show ?thesis by simp
    next
      case False
      with that have "length (objects ?hs) \<le> r \<and> r < length (objects h')"
        by (simp add: player_step_length)
      with ih same show ?thesis by simp
    qed
    show ?thesis
      using ih e len acc clubs Inr by simp
  qed
qed

lemma request_players_ok:
  assumes "a < length (objects h)" and "club (objects h ! a) = Some c"
    and "\<forall>it \<in> set items. \<not> isl it"
  shows "\<exists>h' acc'. request_players h a items acc = Inr (h', acc')"
  using assms
proof (induction items arbitrary: h acc)
  case Nil
  then show ?case by simp
next
  case (Cons it items)
  from Cons.prems(3) obtain u where u: "it = Inr u" by (cases it) auto
  let ?hs = "player_step h u c"
  have "a < length (objects ?hs)" using Cons.prems(1) by (simp add: player_step_length)
  moreover have "club (objects ?hs ! a) = Some c"
    using Cons.prems(1,2) by (simp add: player_step_objects nth_append)
  moreover have "\<forall>it \<in> set items. \<not> isl it" using Cons.prems(3) by simp
  ultimately have "\<exists>h' acc'. request_players ?hs a items (acc @ [length (objects h)]) = Inr (h', acc')"
    by (rule Cons.IH)
  then show ?case
    using Cons.prems(1,2) u by (simp add: request_players_Cons del: request_players.simps(3))
qed

lemma request_players_Inl:
  assumes "request_players h a items acc = Inl e"
    and "a < length (objects h)" and "club (objects h ! a) = Some c"
  shows "Inl e \<in> set items"
  using assms
proof (induction items arbitrary: h acc)
  case Nil
  then show ?case by simp
next
  case (Cons it items)
  show ?case
  proof (cases it)
    case (Inl e')
    with Cons.prems show ?thesis by simp
  next
    case (Inr u)
    let ?hs = "player_step h u c"
    have rec: "request_players ?hs a items (acc @ [length (objects h)]) = Inl e"
      using Cons.prems Inr by (simp add: request_players_Cons del: request_players.simps(3))
    have "a < length (objects ?hs)" using Cons.prems(2) by (simp add: player_step_length)
    moreover have "club (objects ?hs ! a) = Some c"
      using Cons.prems(2,3) by (simp add: player_step_objects nth_append)
    ultimately have "Inl e \<in> set items"
      using rec Cons.IH by blast
    then show ?thesis by simp
  qed
qed

section \<open>The loop over the first wave\<close>

lemma wf_heap_future_inj:
  assumes "wf_heap h" and "a < length (objects h)" and "b < length (objects h)"
    and "future (objects h ! a) = future (objects h ! b)"
  shows "a = b"
proof -
  have A: "wrapper_of h (future (objects h ! a)) = Inr a"
    using assms(1,2) by (rule wf_heap_wrapper_of)
  have B: "wrapper_of h (future (objects h ! b)) = Inr b"
    using assms(1,3) by (rule wf_heap_wrapper_of)
  have "wrapper_of h (future (objects h ! a)) = wrapper_of h (future (objects h ! b))"
    using assms(4) by (rule arg_cong)
  then have "(Inr a :: exn + nat) = Inr b"
    by (simp only: A B)
  then show ?thesis by (simp only: sum.inject)
qed

lemma extends_nth: "extends h h' \<Longrightarrow> b < length (objects h) \<Longrightarrow> objects h' ! b = objects h ! b"
  by (simp add: extends_def)

lemma extends_length: "extends h h' \<Longrightarrow> b < length (objects h) \<Longrightarrow> b < length (objects h')"
  by (simp add: extends_def)

lemma wave1_Cons:
  assumes "wf_heap h" and "extends h1 h" and "b < length (objects h1)"
  shows "wave1 w h (future (objects h1 ! b) # fs) acc =
           (case request_players h b (ClubPlayersFuture_result w (objects h1 ! b)) acc of
              Inl e \<Rightarrow> Inl e
            | Inr (h', acc') \<Rightarrow> wave1 w h' fs acc')"
proof -
  have lt: "b < length (objects h)" using assms(2,3) by (rule extends_length)
  have same: "objects h ! b = objects h1 ! b" using assms(2,3) by (rule extends_nth)
  have "wrapper_of h (future (objects h ! b)) = Inr b"
    using assms(1) lt by (rule wf_heap_wrapper_of)
  then have "wrapper_of h (future (objects h1 ! b)) = Inr b" by (simp add: same)
  moreover have "deref h b = Some (objects h1 ! b)" using lt same by (simp add: deref_def)
  ultimately show ?thesis by simp
qed

lemma wave1_Inl:
  assumes "wave1 w h order acc = Inl e"
    and "wf_heap h" and "extends h1 h" and "club_futures h1 order"
  shows "\<exists>b < length (objects h1). future (objects h1 ! b) \<in> set order
           \<and> Inl e \<in> set (ClubPlayersFuture_result w (objects h1 ! b))"
  using assms
proof (induction order arbitrary: h acc)
  case Nil
  then show ?case by simp
next
  case (Cons f fs)
  from Cons.prems(4) obtain b c where b: "b < length (objects h1)"
    and f: "f = future (objects h1 ! b)" and c: "club (objects h1 ! b) = Some c"
    by (auto simp: club_futures_def)
  let ?items = "ClubPlayersFuture_result w (objects h1 ! b)"
  have lt: "b < length (objects h)" using Cons.prems(3) b by (rule extends_length)
  have same: "objects h ! b = objects h1 ! b" using Cons.prems(3) b by (rule extends_nth)
  have unfold: "wave1 w h (f # fs) acc =
           (case request_players h b ?items acc of
              Inl e \<Rightarrow> Inl e
            | Inr (h', acc') \<Rightarrow> wave1 w h' fs acc')"
    unfolding f using Cons.prems(2,3) b by (rule wave1_Cons)
  show ?case
  proof (cases "request_players h b ?items acc")
    case (Inl e')
    with unfold Cons.prems(1) have "e' = e" by simp
    with Inl have "Inl e \<in> set ?items"
      using request_players_Inl [of h b ?items acc e c] lt c same by simp
    with b f show ?thesis by auto
  next
    case (Inr p)
    obtain h' acc' where p: "p = (h', acc')" by (cases p)
    from unfold Cons.prems(1) Inr p have rec: "wave1 w h' fs acc' = Inl e" by simp
    have facts: "wf_heap h' \<and> extends h h'"
      using request_players_Inr [of h b ?items acc h' acc'] Inr p Cons.prems(2) lt by simp
    then have "extends h1 h'" using Cons.prems(3) by (blast intro: extends_trans)
    moreover have "club_futures h1 fs" using Cons.prems(4) by (simp add: club_futures_def)
    ultimately have "\<exists>b < length (objects h1). future (objects h1 ! b) \<in> set fs
           \<and> Inl e \<in> set (ClubPlayersFuture_result w (objects h1 ! b))"
      using Cons.IH [OF rec] facts by blast
    then show ?thesis by auto
  qed
qed

lemma wave1_reaches:
  assumes "wf_heap h" and "extends h1 h" and "club_futures h1 order"
    and "b0 < length (objects h1)" and "future (objects h1 ! b0) \<in> set order"
    and "Inl e0 \<in> set (ClubPlayersFuture_result w (objects h1 ! b0))"
  shows "\<exists>e. wave1 w h order acc = Inl e"
  using assms
proof (induction order arbitrary: h acc)
  case Nil
  then show ?case by simp
next
  case (Cons f fs)
  from Cons.prems(3) obtain b c where b: "b < length (objects h1)"
    and f: "f = future (objects h1 ! b)" and c: "club (objects h1 ! b) = Some c"
    by (auto simp: club_futures_def)
  let ?items = "ClubPlayersFuture_result w (objects h1 ! b)"
  have lt: "b < length (objects h)" using Cons.prems(2) b by (rule extends_length)
  have unfold: "wave1 w h (f # fs) acc =
           (case request_players h b ?items acc of
              Inl e \<Rightarrow> Inl e
            | Inr (h', acc') \<Rightarrow> wave1 w h' fs acc')"
    unfolding f using Cons.prems(1,2) b by (rule wave1_Cons)
  show ?case
  proof (cases "request_players h b ?items acc")
    case (Inl e')
    with unfold show ?thesis by simp
  next
    case (Inr p)
    obtain h' acc' where p: "p = (h', acc')" by (cases p)
    have facts: "wf_heap h' \<and> extends h h' \<and> (\<forall>it \<in> set ?items. \<not> isl it)"
      using request_players_Inr [of h b ?items acc h' acc'] Inr p Cons.prems(1) lt by simp
    have "b \<noteq> b0"
    proof
      assume "b = b0"
      with Cons.prems(6) facts show False by auto
    qed
    have "f \<noteq> future (objects h1 ! b0)"
    proof
      assume eq: "f = future (objects h1 ! b0)"
      have "future (objects h ! b) = future (objects h ! b0)"
        using eq f Cons.prems(2,4) b by (simp add: extends_nth)
      moreover have "b0 < length (objects h)" using Cons.prems(2,4) by (rule extends_length)
      ultimately have "b = b0" using Cons.prems(1) lt by (blast intro: wf_heap_future_inj)
      with \<open>b \<noteq> b0\<close> show False by simp
    qed
    with Cons.prems(5) have mem: "future (objects h1 ! b0) \<in> set fs" by auto
    have e1: "extends h1 h'" using Cons.prems(2) facts by (blast intro: extends_trans)
    have cf: "club_futures h1 fs" using Cons.prems(3) by (simp add: club_futures_def)
    have "\<exists>e. wave1 w h' fs acc' = Inl e"
      using facts e1 cf Cons.prems(4) mem Cons.prems(6) Cons.IH by blast
    with unfold Inr p show ?thesis by simp
  qed
qed

section \<open>get_players_for_clubs: a failed roster fetch\<close>

lemma fetch_fails_result:
  assumes "fetch_fails w x"
  shows "ClubPlayersFuture_result w x = [Inl (FailedRequestException (w_url x))]"
  using assms
  by (auto simp: fetch_fails_def ClubPlayersFuture_result_def ParsedFuture_result_def
      FutBinFuture_result_def split: sum.splits)

lemma first_loop:
  fixes clubs :: "string list"
  defines "h1 \<equiv> fst (request_clubs session0 clubs [])"
  shows "wf_heap h1"
    and "length (objects h1) = length clubs"
    and "\<And>j. j < length clubs \<Longrightarrow> objects h1 ! j = club_wrapper j (clubs ! j)"
    and "snd (request_clubs session0 clubs []) = [0..<length clubs]"
    and "futures_of h1 [0..<length clubs] = Inr (map (\<lambda>a. future (objects h1 ! a)) [0..<length clubs])"
proof -
  show "wf_heap h1"
    unfolding h1_def using wf_heap_session0 by (rule wf_heap_request_clubs)
  show len: "length (objects h1) = length clubs"
    unfolding h1_def by (simp add: request_clubs_session0 club_wrappers_length)
  show "objects h1 ! j = club_wrapper j (clubs ! j)" if "j < length clubs" for j
    unfolding h1_def using that by (simp add: request_clubs_session0 club_wrappers_nth)
  show "snd (request_clubs session0 clubs []) = [0..<length clubs]"
    by (rule request_clubs_session0)
  show "futures_of h1 [0..<length clubs] = Inr (map (\<lambda>a. future (objects h1 ! a)) [0..<length clubs])"
    by (rule futures_of_valid) (simp add: len)
qed

lemma get_players_for_clubs_unfold:
  "get_players_for_clubs w clubs =
     (let h1 = fst (request_clubs session0 clubs []);
          fs1 = map (\<lambda>a. future (objects h1 ! a)) [0..<length clubs] in
      case wave1 w h1 (as_completed w fs1) [] of
        Inl e \<Rightarrow> Inl e
      | Inr (h2, futures2) \<Rightarrow>
          (case futures_of h2 futures2 of
             Inl e \<Rightarrow> Inl e
           | Inr fs2 \<Rightarrow> wave2 w h2 (as_completed w fs2) Map.empty))"
  by (simp add: get_players_for_clubs_def split_beta first_loop Let_def)

lemma first_wave_club_futures:
  assumes "completion_order (as_completed w)"
  shows "club_futures (fst (request_clubs session0 clubs []))
           (as_completed w (map (\<lambda>a. future (objects (fst (request_clubs session0 clubs [])) ! a))
              [0..<length clubs]))"
  unfolding club_futures_def
proof
  let ?h1 = "fst (request_clubs session0 clubs [])"
  fix f
  assume "f \<in> set (as_completed w (map (\<lambda>a. future (objects ?h1 ! a)) [0..<length clubs]))"
  then have "f \<in> set (map (\<lambda>a. future (objects ?h1 ! a)) [0..<length clubs])"
    using assms by (simp add: completion_order_def)
  then obtain b where b: "b < length clubs" and f: "f = future (objects ?h1 ! b)" by auto
  have "club (objects ?h1 ! b) \<noteq> None"
    using b by (simp add: first_loop club_wrapper_def)
  with b f show "\<exists>b < length (objects ?h1). future (objects ?h1 ! b) = f \<and> club (objects ?h1 ! b) \<noteq> None"
    by (auto simp: first_loop)
qed

text \<open>
  C1, as the code has it. When exactly one club's roster fetch fails (its future
  completes with a status other than 200) and every other club's roster yields its
  player URLs, \<open>get_players_for_clubs\<close> returns no mapping: for every completion order it
  raises FailedRequestException carrying the failed club's roster URL. The failure is
  not swallowed, and the players of the other clubs are not returned.
\<close>

theorem get_players_for_clubs_raises:
  assumes co: "completion_order (as_completed w)"
    and i: "i < length clubs"
    and fails: "fetch_fails w (club_wrapper i (clubs ! i))"
    and others: "\<forall>j < length clubs. j \<noteq> i \<longrightarrow>
                   (\<exists>us. ClubPlayersFuture_result w (club_wrapper j (clubs ! j)) = map Inr us)"
  shows "get_players_for_clubs w clubs =
           Inl (FailedRequestException (FIFA18_URL @ ''/clubs/'' @ clubs ! i))"
proof -
  let ?h1 = "fst (request_clubs session0 clubs [])"
  let ?fs1 = "map (\<lambda>a. future (objects ?h1 ! a)) [0..<length clubs]"
  let ?order = "as_completed w ?fs1"
  have wf: "wf_heap ?h1" by (rule first_loop)
  have cf: "club_futures ?h1 ?order" using co by (rule first_wave_club_futures)
  have ilt: "i < length (objects ?h1)" using i by (simp add: first_loop)
  have obj: "objects ?h1 ! i = club_wrapper i (clubs ! i)" using i by (rule first_loop)
  have items: "ClubPlayersFuture_result w (objects ?h1 ! i) =
                 [Inl (FailedRequestException (FIFA18_URL @ ''/clubs/'' @ clubs ! i))]"
    using fetch_fails_result [OF fails] by (simp add: obj club_wrapper_def)
  have "future (objects ?h1 ! i) \<in> set ?fs1" using i by simp
  then have mem: "future (objects ?h1 ! i) \<in> set ?order"
    using co by (simp add: completion_order_def)
  have "Inl (FailedRequestException (FIFA18_URL @ ''/clubs/'' @ clubs ! i))
          \<in> set (ClubPlayersFuture_result w (objects ?h1 ! i))"
    by (simp add: items)
  with wf extends_refl cf ilt mem obtain e where e: "wave1 w ?h1 ?order [] = Inl e"
    using wave1_reaches by blast
  then obtain b where b: "b < length (objects ?h1)"
    and eb: "Inl e \<in> set (ClubPlayersFuture_result w (objects ?h1 ! b))"
    using wave1_Inl [OF e wf extends_refl cf] by blast
  have "b = i"
  proof (rule ccontr)
    assume "b \<noteq> i"
    moreover have blt: "b < length clubs" using b by (simp add: first_loop)
    ultimately obtain us where "ClubPlayersFuture_result w (club_wrapper b (clubs ! b)) = map Inr us"
      using others by blast
    then have "ClubPlayersFuture_result w (objects ?h1 ! b) = map Inr us"
      using blt by (simp add: first_loop)
    with eb show False by auto
  qed
  with eb items have "e = FailedRequestException (FIFA18_URL @ ''/clubs/'' @ clubs ! i)"
    by simp
  with e show ?thesis
    by (simp add: get_players_for_clubs_unfold Let_def)
qed

theorem get_players_for_clubs_raises_witness:
  "get_players_for_clubs (scenario 404 reversed) [''Arsenal'', ''Chelsea''] =
     Inl (FailedRequestException (FIFA18_URL @ ''/clubs/'' @ ''Arsenal''))"
proof -
  let ?w = "scenario 404 reversed"
  let ?clubs = "[''Arsenal'', ''Chelsea'']"
  have co: "completion_order (as_completed ?w)"
    by (simp add: scenario_def completion_order_reversed)
  have i: "0 < length ?clubs"
    by simp
  have fails: "fetch_fails ?w (club_wrapper 0 (?clubs ! 0))"
    by code_simp
  have chelsea: "ClubPlayersFuture_result ?w (club_wrapper 1 ''Chelsea'') =
                   map Inr [''https://www.futbin.com/18/player/1/hazard'',
                            ''https://www.futbin.com/18/player/2/kante'']"
    by code_simp
  have others: "\<forall>j < length ?clubs. j \<noteq> 0 \<longrightarrow>
                  (\<exists>us. ClubPlayersFuture_result ?w (club_wrapper j (?clubs ! j)) = map Inr us)"
  proof (intro allI impI)
    fix j :: nat
    assume "j < length ?clubs" and "j \<noteq> 0"
    then have "j = 1" by simp
    with chelsea show "\<exists>us. ClubPlayersFuture_result ?w (club_wrapper j (?clubs ! j)) = map Inr us"
      by (simp only: nth_Cons_0 nth_Cons_Suc One_nat_def) blast
  qed
  show ?thesis
    using get_players_for_clubs_raises [OF co i fails others] by simp
qed

text \<open>
  The claim as stated fails in its own scenario: Arsenal's roster fetch answers 404,
  Chelsea's answers 200 with two player links whose pages answer 200, and the call
  returns no mapping but raises, whichever roster completes first.
\<close>

theorem get_players_for_clubs_counterexample:
  "get_players_for_clubs (scenario 404 in_order) [''Arsenal'', ''Chelsea''] =
     Inl (FailedRequestException ''https://www.futbin.com/18/clubs/Arsenal'')
   \<and> get_players_for_clubs (scenario 404 reversed) [''Arsenal'', ''Chelsea''] =
     Inl (FailedRequestException ''https://www.futbin.com/18/clubs/Arsenal'')"
proof
  have "case get_players_for_clubs (scenario 404 in_order) [''Arsenal'', ''Chelsea''] of
          Inl e \<Rightarrow> e = FailedRequestException ''https://www.futbin.com/18/clubs/Arsenal''
        | Inr m \<Rightarrow> False"
    by code_simp
  then show "get_players_for_clubs (scenario 404 in_order) [''Arsenal'', ''Chelsea''] =
          Inl (FailedRequestException ''https://www.futbin.com/18/clubs/Arsenal'')"
    by (simp split: sum.splits)
  have "case get_players_for_clubs (scenario 404 reversed) [''Arsenal'', ''Chelsea''] of
          Inl e \<Rightarrow> e = FailedRequestException ''https://www.futbin.com/18/clubs/Arsenal''
        | Inr m \<Rightarrow> False"
    by code_simp
  then show "get_players_for_clubs (scenario 404 reversed) [''Arsenal'', ''Chelsea''] =
          Inl (FailedRequestException ''https://www.futbin.com/18/clubs/Arsenal'')"
    by (simp split: sum.splits)
qed

section \<open>get_players_for_clubs: the keys of the mapping\<close>

lemma clubs_at_append: "clubs_at h (rs @ rs') = clubs_at h rs \<union> clubs_at h rs'"
  by (auto simp: clubs_at_def)

lemma clubs_at_extends:
  assumes "extends h h'" and "\<forall>r \<in> set rs. r < length (objects h)"
  shows "clubs_at h' rs = clubs_at h rs"
proof -
  have "(r < length (objects h') \<and> club (objects h' ! r) = Some c)
          = (r < length (objects h) \<and> club (objects h ! r) = Some c)" if "r \<in> set rs" for r c
  proof -
    from that assms(2) have "r < length (objects h)" by blast
    with assms(1) show ?thesis by (simp add: extends_nth extends_length)
  qed
  then show ?thesis by (simp add: clubs_at_def cong: bex_cong)
qed

lemma clubs_at_new:
  assumes "\<forall>r. k \<le> r \<and> r < length (objects h) \<longrightarrow> club (objects h ! r) = Some c"
    and "k \<le> length (objects h)"
  shows "clubs_at h [k..<length (objects h)] = (if k = length (objects h) then {} else {c})"
  using assms by (auto simp: clubs_at_def)

lemma request_players_clubs:
  assumes rp: "request_players h a items acc = Inr (h', acc')"
    and wf: "wf_heap h" and a: "a < length (objects h)" and c: "club (objects h ! a) = Some c"
    and acc: "\<forall>r \<in> set acc. r < length (objects h)"
  shows "clubs_at h' acc' = clubs_at h acc \<union> (if items = [] then {} else {c})"
    and "\<forall>r \<in> set acc'. r < length (objects h')"
proof -
  note f = request_players_Inr [OF rp wf a]
  have e: "extends h h'" using f by simp
  have len: "length (objects h') = length (objects h) + length items" using f by simp
  have acc': "acc' = acc @ [length (objects h)..<length (objects h')]" using f by simp
  have new: "\<forall>r. length (objects h) \<le> r \<and> r < length (objects h') \<longrightarrow> club (objects h' ! r) = Some c"
    using f c by simp
  have "clubs_at h' [length (objects h)..<length (objects h')] =
          (if length (objects h) = length (objects h') then {} else {c})"
    using new len by (intro clubs_at_new) simp_all
  also have "\<dots> = (if items = [] then {} else {c})"
    using len by simp
  finally have n: "clubs_at h' [length (objects h)..<length (objects h')] = (if items = [] then {} else {c})" .
  have "clubs_at h' acc = clubs_at h acc"
    using e acc by (rule clubs_at_extends)
  with n show "clubs_at h' acc' = clubs_at h acc \<union> (if items = [] then {} else {c})"
    by (simp only: acc' clubs_at_append)
  show "\<forall>r \<in> set acc'. r < length (objects h')"
    using acc len by (auto simp: acc')
qed

lemma wave1_Inr:
  assumes "wave1 w h order acc = Inr (h', acc')"
    and "wf_heap h" and "extends h1 h" and "club_futures h1 order"
    and "\<forall>r \<in> set acc. r < length (objects h)"
  shows "wf_heap h' \<and> (\<forall>r \<in> set acc'. r < length (objects h'))
         \<and> clubs_at h' acc' =
             clubs_at h acc \<union>
             {c. \<exists>b < length (objects h1). future (objects h1 ! b) \<in> set order
                    \<and> club (objects h1 ! b) = Some c
                    \<and> ClubPlayersFuture_result w (objects h1 ! b) \<noteq> []}"
  using assms
proof (induction order arbitrary: h acc)
  case Nil
  then show ?case by simp
next
  case (Cons f fs)
  from Cons.prems(4) obtain b c where b: "b < length (objects h1)"
    and f: "f = future (objects h1 ! b)" and c: "club (objects h1 ! b) = Some c"
    by (auto simp: club_futures_def)
  let ?items = "ClubPlayersFuture_result w (objects h1 ! b)"
  let ?S = "\<lambda>order. {c. \<exists>b < length (objects h1). future (objects h1 ! b) \<in> set order
                    \<and> club (objects h1 ! b) = Some c
                    \<and> ClubPlayersFuture_result w (objects h1 ! b) \<noteq> []}"
  have lt: "b < length (objects h)" using Cons.prems(3) b by (rule extends_length)
  have same: "objects h ! b = objects h1 ! b" using Cons.prems(3) b by (rule extends_nth)
  have unfold: "wave1 w h (f # fs) acc =
           (case request_players h b ?items acc of
              Inl e \<Rightarrow> Inl e
            | Inr (h', acc') \<Rightarrow> wave1 w h' fs acc')"
    unfolding f using Cons.prems(2,3) b by (rule wave1_Cons)
  from unfold Cons.prems(1) obtain hm accm
    where rp: "request_players h b ?items acc = Inr (hm, accm)"
      and rec: "wave1 w hm fs accm = Inr (h', acc')"
    by (auto split: sum.splits)
  have ch: "club (objects h ! b) = Some c" using c same by simp
  note rpf = request_players_Inr [OF rp Cons.prems(2) lt]
  have wfm: "wf_heap hm" and em: "extends h hm" using rpf by simp_all
  have e1: "extends h1 hm" using Cons.prems(3) em by (rule extends_trans)
  have cfs: "club_futures h1 fs" using Cons.prems(4) by (simp add: club_futures_def)
  have cm: "clubs_at hm accm = clubs_at h acc \<union> (if ?items = [] then {} else {c})"
    and vm: "\<forall>r \<in> set accm. r < length (objects hm)"
    using request_players_clubs [OF rp Cons.prems(2) lt ch Cons.prems(5)] by simp_all
  note ih = Cons.IH [OF rec wfm e1 cfs vm]
  have uniq: "b' = b" if "b' < length (objects h1)" and "future (objects h1 ! b') = f" for b'
  proof -
    have "b' < length (objects h)" using Cons.prems(3) that(1) by (rule extends_length)
    moreover have "future (objects h ! b') = future (objects h ! b)"
      using that f same Cons.prems(3) by (simp add: extends_nth)
    ultimately show ?thesis using Cons.prems(2) lt by (blast intro: wf_heap_future_inj)
  qed
  have S: "?S (f # fs) = (if ?items = [] then {} else {c}) \<union> ?S fs"
  proof (intro set_eqI iffI)
    fix x
    assume "x \<in> ?S (f # fs)"
    then obtain b' where b': "b' < length (objects h1)"
      and mem: "future (objects h1 ! b') \<in> set (f # fs)"
      and cl: "club (objects h1 ! b') = Some x"
      and ne: "ClubPlayersFuture_result w (objects h1 ! b') \<noteq> []"
      by blast
    show "x \<in> (if ?items = [] then {} else {c}) \<union> ?S fs"
    proof (cases "future (objects h1 ! b') = f")
      case True
      with b' have "b' = b" by (rule uniq)
      with cl c ne show ?thesis by simp
    next
      case False
      with mem have "future (objects h1 ! b') \<in> set fs" by simp
      with b' cl ne show ?thesis by blast
    qed
  next
    fix x
    assume "x \<in> (if ?items = [] then {} else {c}) \<union> ?S fs"
    then consider "?items \<noteq> []" and "x = c" | "x \<in> ?S fs"
      by (auto split: if_splits)
    then show "x \<in> ?S (f # fs)"
    proof cases
      case 1
      with b c f show ?thesis by auto
    next
      case 2
      then show ?thesis by auto
    qed
  qed
  have "clubs_at h' acc' = clubs_at hm accm \<union> ?S fs" using ih by simp
  also have "\<dots> = clubs_at h acc \<union> ?S (f # fs)"
    by (simp only: cm S Un_assoc)
  finally show ?case using ih by simp
qed

lemma wave2_Cons_Inr:
  assumes "wave2 w h (f # fs) result = Inr m"
  obtains p c where "club_of h f = Some c" and "wave2 w h fs (append_to result c p) = Inr m"
  using assms
  by (auto simp: wrapper_of_def club_of_def split: sum.splits option.splits)

lemma wave2_dom:
  assumes "wave2 w h order result = Inr m"
  shows "dom m = dom result \<union> {c. \<exists>f \<in> set order. club_of h f = Some c}"
  using assms
proof (induction order arbitrary: result)
  case Nil
  then show ?case by simp
next
  case (Cons f fs)
  from Cons.prems obtain p c where c: "club_of h f = Some c"
    and rec: "wave2 w h fs (append_to result c p) = Inr m"
    by (rule wave2_Cons_Inr)
  have "dom m = dom (append_to result c p) \<union> {c. \<exists>f \<in> set fs. club_of h f = Some c}"
    using rec by (rule Cons.IH)
  moreover have "dom (append_to result c p) = insert c (dom result)"
    by (simp add: append_to_def)
  ultimately show ?case using c by auto
qed

lemma wave2_nonempty:
  assumes "wave2 w h order result = Inr m" and "\<forall>c. result c \<noteq> Some []"
  shows "\<forall>c. m c \<noteq> Some []"
  using assms
proof (induction order arbitrary: result)
  case Nil
  then show ?case by simp
next
  case (Cons f fs)
  from Cons.prems(1) obtain p c where rec: "wave2 w h fs (append_to result c p) = Inr m"
    by (rule wave2_Cons_Inr)
  have "\<forall>c'. append_to result c p c' \<noteq> Some []"
    using Cons.prems(2) by (simp add: append_to_def)
  with rec show ?case by (rule Cons.IH)
qed

lemma club_of_wrapper:
  assumes "wf_heap h" and "r < length (objects h)"
  shows "club_of h (future (objects h ! r)) = club (objects h ! r)"
proof -
  have "wrapper_attr h (fid (future (objects h ! r))) = Some r"
    using assms unfolding wf_heap_def by blast
  then show ?thesis using assms(2) by (simp add: club_of_def deref_def)
qed

lemma clubs_of_futures:
  assumes "wf_heap h" and "\<forall>r \<in> set rs. r < length (objects h)"
  shows "{c. \<exists>f \<in> set (map (\<lambda>a. future (objects h ! a)) rs). club_of h f = Some c} = clubs_at h rs"
proof -
  have "club_of h (future (objects h ! r)) = club (objects h ! r)" if "r \<in> set rs" for r
    using assms that by (simp add: club_of_wrapper)
  then show ?thesis using assms(2) by (auto simp: clubs_at_def)
qed

lemma player_step_new:
  "objects (player_step h u c) ! length (objects h) = player_wrapper (length (submitted h)) u c"
  by (simp add: player_step_objects player_wrapper_def)

lemma request_players_objects:
  assumes "request_players h a items acc = Inr (h', acc')"
    and "wf_heap h" and "a < length (objects h)" and "club (objects h ! a) = Some c"
  shows "\<forall>r. length (objects h) \<le> r \<and> r < length (objects h')
           \<longrightarrow> (\<exists>u k. Inr u \<in> set items \<and> objects h' ! r = player_wrapper k u c)"
  using assms
proof (induction items arbitrary: h acc)
  case Nil
  then show ?case by auto
next
  case (Cons it items)
  show ?case
  proof (cases it)
    case (Inl e)
    with Cons.prems show ?thesis by simp
  next
    case (Inr u)
    let ?hs = "player_step h u c"
    have rec: "request_players ?hs a items (acc @ [length (objects h)]) = Inr (h', acc')"
      using Cons.prems(1,3,4) Inr
      by (simp add: request_players_Cons del: request_players.simps(3))
    have wfs: "wf_heap ?hs" using Cons.prems(2) by (rule player_step_wf)
    have as: "a < length (objects ?hs)" using Cons.prems(3) by (simp add: player_step_length)
    have cs: "club (objects ?hs ! a) = Some c"
      using Cons.prems(3,4) by (simp add: player_step_objects nth_append)
    note ih = Cons.IH [OF rec wfs as cs]
    have ext: "extends ?hs h'"
      using request_players_Inr [OF rec wfs as] by simp
    show ?thesis
    proof (intro allI impI)
      fix r
      assume r: "length (objects h) \<le> r \<and> r < length (objects h')"
      show "\<exists>u k. Inr u \<in> set (it # items) \<and> objects h' ! r = player_wrapper k u c"
      proof (cases "r = length (objects h)")
        case True
        then have "r < length (objects ?hs)" by (simp add: player_step_length)
        with ext have "objects h' ! r = objects ?hs ! r" by (rule extends_nth)
        with True have "objects h' ! r = player_wrapper (length (submitted h)) u c"
          by (simp add: player_step_new)
        with Inr show ?thesis by auto
      next
        case False
        with r have "length (objects ?hs) \<le> r \<and> r < length (objects h')"
          by (simp add: player_step_length)
        with ih obtain u' k where "Inr u' \<in> set items" and "objects h' ! r = player_wrapper k u' c"
          by blast
        then show ?thesis by auto
      qed
    qed
  qed
qed

lemma wave1_objects:
  assumes "wave1 w h order acc = Inr (h', acc')"
    and "wf_heap h" and "extends h1 h" and "club_futures h1 order"
    and "\<forall>r \<in> set acc. r < length (objects h) \<and>
           (\<exists>b u k c. b < length (objects h1) \<and> club (objects h1 ! b) = Some c
              \<and> Inr u \<in> set (ClubPlayersFuture_result w (objects h1 ! b))
              \<and> objects h ! r = player_wrapper k u c)"
  shows "\<forall>r \<in> set acc'. r < length (objects h') \<and>
           (\<exists>b u k c. b < length (objects h1) \<and> club (objects h1 ! b) = Some c
              \<and> Inr u \<in> set (ClubPlayersFuture_result w (objects h1 ! b))
              \<and> objects h' ! r = player_wrapper k u c)"
  using assms
proof (induction order arbitrary: h acc)
  case Nil
  then show ?case by simp
next
  case (Cons f fs)
  from Cons.prems(4) obtain b c where b: "b < length (objects h1)"
    and f: "f = future (objects h1 ! b)" and c: "club (objects h1 ! b) = Some c"
    by (auto simp: club_futures_def)
  let ?items = "ClubPlayersFuture_result w (objects h1 ! b)"
  have lt: "b < length (objects h)" using Cons.prems(3) b by (rule extends_length)
  have same: "objects h ! b = objects h1 ! b" using Cons.prems(3) b by (rule extends_nth)
  have unfold: "wave1 w h (f # fs) acc =
           (case request_players h b ?items acc of
              Inl e \<Rightarrow> Inl e
            | Inr (h', acc') \<Rightarrow> wave1 w h' fs acc')"
    unfolding f using Cons.prems(2,3) b by (rule wave1_Cons)
  from unfold Cons.prems(1) obtain hm accm
    where rp: "request_players h b ?items acc = Inr (hm, accm)"
      and rec: "wave1 w hm fs accm = Inr (h', acc')"
    by (auto split: sum.splits)
  have ch: "club (objects h ! b) = Some c" using c same by simp
  note rpf = request_players_Inr [OF rp Cons.prems(2) lt]
  have wfm: "wf_heap hm" and em: "extends h hm" using rpf by simp_all
  have accm: "accm = acc @ [length (objects h)..<length (objects hm)]" using rpf by simp
  have e1: "extends h1 hm" using Cons.prems(3) em by (rule extends_trans)
  have cfs: "club_futures h1 fs" using Cons.prems(4) by (simp add: club_futures_def)
  note new = request_players_objects [OF rp Cons.prems(2) lt ch]
  have inv: "\<forall>r \<in> set accm. r < length (objects hm) \<and>
           (\<exists>b u k c. b < length (objects h1) \<and> club (objects h1 ! b) = Some c
              \<and> Inr u \<in> set (ClubPlayersFuture_result w (objects h1 ! b))
              \<and> objects hm ! r = player_wrapper k u c)"
  proof
    fix r
    assume "r \<in> set accm"
    then consider "r \<in> set acc" | "length (objects h) \<le> r \<and> r < length (objects hm)"
      by (auto simp: accm)
    then show "r < length (objects hm) \<and>
           (\<exists>b u k c. b < length (objects h1) \<and> club (objects h1 ! b) = Some c
              \<and> Inr u \<in> set (ClubPlayersFuture_result w (objects h1 ! b))
              \<and> objects hm ! r = player_wrapper k u c)"
    proof cases
      case 1
      with Cons.prems(5) have rl: "r < length (objects h)"
        and ex: "\<exists>b u k c. b < length (objects h1) \<and> club (objects h1 ! b) = Some c
              \<and> Inr u \<in> set (ClubPlayersFuture_result w (objects h1 ! b))
              \<and> objects h ! r = player_wrapper k u c"
        by blast+
      have "objects hm ! r = objects h ! r" using em rl by (rule extends_nth)
      moreover have "r < length (objects hm)" using em rl by (rule extends_length)
      ultimately show ?thesis using ex by simp
    next
      case 2
      with new obtain u k where "Inr u \<in> set ?items" and "objects hm ! r = player_wrapper k u c"
        by blast
      with 2 b c show ?thesis by blast
    qed
  qed
  show ?case
    using rec wfm e1 cfs inv by (rule Cons.IH)
qed

lemma wave2_Cons_resolved:
  assumes "wave2 w h (f # fs) result = Inr m"
  obtains a x p c where "wrapper_of h f = Inr a" and "deref h a = Some x"
    and "PlayerDataFuture_result w x = Inr p" and "club x = Some c"
    and "wave2 w h fs (append_to result c p) = Inr m"
  using assms
  by (auto split: sum.splits option.splits)

lemma wave2_players:
  assumes "wave2 w h order result = Inr m" and "m c = Some ps" and "p \<in> set ps"
  shows "(\<exists>ps0. result c = Some ps0 \<and> p \<in> set ps0)
         \<or> (\<exists>f \<in> set order. \<exists>a x. wrapper_of h f = Inr a \<and> deref h a = Some x
               \<and> club x = Some c \<and> PlayerDataFuture_result w x = Inr p)"
  using assms
proof (induction order arbitrary: result)
  case Nil
  then show ?case by simp
next
  case (Cons f fs)
  from Cons.prems(1) obtain a x q d where a: "wrapper_of h f = Inr a" and x: "deref h a = Some x"
    and q: "PlayerDataFuture_result w x = Inr q" and d: "club x = Some d"
    and rec: "wave2 w h fs (append_to result d q) = Inr m"
    by (rule wave2_Cons_resolved)
  from Cons.IH [OF rec Cons.prems(2,3)]
  consider ps0 where "append_to result d q c = Some ps0" and "p \<in> set ps0"
    | "\<exists>f \<in> set fs. \<exists>a x. wrapper_of h f = Inr a \<and> deref h a = Some x
               \<and> club x = Some c \<and> PlayerDataFuture_result w x = Inr p"
    by blast
  then show ?case
  proof cases
    case 1
    show ?thesis
    proof (cases "c = d \<and> p = q")
      case True
      with a x q d show ?thesis by auto
    next
      case False
      with 1 have "\<exists>ps0. result c = Some ps0 \<and> p \<in> set ps0"
        by (auto simp: append_to_def split: if_splits option.splits)
      then show ?thesis by blast
    qed
  next
    case 2
    then show ?thesis by auto
  qed
qed

text \<open>
  C8. Whenever \<open>get_players_for_clubs\<close> returns a mapping, in whatever completion order:
  a club is a key of the mapping if and only if at least one Player was resolved for
  it; every key is mapped to a non-empty sequence, and each Player of that sequence
  was resolved for that club (a roster page requested for the club yielded a URL whose
  player-detail wrapper, carrying the club, resolved to the Player). Equivalently, a
  club is a key if and only if one of its roster pages yielded at least one player URL,
  so a club whose roster page yields none is absent from the mapping.
\<close>

theorem get_players_for_clubs_keys:
  assumes co: "completion_order (as_completed w)"
    and res: "get_players_for_clubs w clubs = Inr m"
  shows "(\<forall>c. (c \<in> dom m) = (\<exists>p. resolved_for w clubs c p))
         \<and> (\<forall>c ps. m c = Some ps \<longrightarrow> ps \<noteq> [] \<and> (\<forall>p \<in> set ps. resolved_for w clubs c p))
         \<and> (\<forall>c. (c \<in> dom m) =
              (\<exists>j < length clubs. clubs ! j = c
                  \<and> ClubPlayersFuture_result w (club_wrapper j (clubs ! j)) \<noteq> []))"
proof -
  let ?h1 = "fst (request_clubs session0 clubs [])"
  let ?fs1 = "map (\<lambda>a. future (objects ?h1 ! a)) [0..<length clubs]"
  let ?order = "as_completed w ?fs1"
  have wf: "wf_heap ?h1" by (rule first_loop)
  have cf: "club_futures ?h1 ?order" using co by (rule first_wave_club_futures)
  from res obtain h2 futures2 fs2
    where w1: "wave1 w ?h1 ?order [] = Inr (h2, futures2)"
      and f2: "futures_of h2 futures2 = Inr fs2"
      and w2: "wave2 w h2 (as_completed w fs2) Map.empty = Inr m"
    by (auto simp: get_players_for_clubs_unfold Let_def split: sum.splits)
  have after1: "wf_heap h2 \<and> (\<forall>r \<in> set futures2. r < length (objects h2))
         \<and> clubs_at h2 futures2 =
             clubs_at ?h1 [] \<union>
             {c. \<exists>b < length (objects ?h1). future (objects ?h1 ! b) \<in> set ?order
                    \<and> club (objects ?h1 ! b) = Some c
                    \<and> ClubPlayersFuture_result w (objects ?h1 ! b) \<noteq> []}"
    using w1 wf extends_refl cf by (rule wave1_Inr) simp
  have objs: "\<forall>r \<in> set futures2. r < length (objects h2) \<and>
           (\<exists>b u k c. b < length (objects ?h1) \<and> club (objects ?h1 ! b) = Some c
              \<and> Inr u \<in> set (ClubPlayersFuture_result w (objects ?h1 ! b))
              \<and> objects h2 ! r = player_wrapper k u c)"
    using w1 wf extends_refl cf by (rule wave1_objects) simp
  have so: "set ?order = set ?fs1" using co by (simp add: completion_order_def)
  have keys1: "clubs_at h2 futures2 =
                 {c. \<exists>j < length clubs. clubs ! j = c
                       \<and> ClubPlayersFuture_result w (club_wrapper j (clubs ! j)) \<noteq> []}"
  proof -
    have "clubs_at h2 futures2 =
             {c. \<exists>b < length clubs. future (objects ?h1 ! b) \<in> set ?fs1
                    \<and> club (club_wrapper b (clubs ! b)) = Some c
                    \<and> ClubPlayersFuture_result w (club_wrapper b (clubs ! b)) \<noteq> []}"
      using after1 by (simp add: so clubs_at_def first_loop cong: conj_cong)
    also have "\<dots> = {c. \<exists>j < length clubs. clubs ! j = c
                       \<and> ClubPlayersFuture_result w (club_wrapper j (clubs ! j)) \<noteq> []}"
      by (auto simp: club_wrapper_def)
    finally show ?thesis .
  qed
  have fs2: "fs2 = map (\<lambda>a. future (objects h2 ! a)) futures2"
    using f2 by (simp add: futures_of_Inr)
  have "dom m = {c. \<exists>f \<in> set (as_completed w fs2). club_of h2 f = Some c}"
    using wave2_dom [OF w2] by simp
  also have "\<dots> = {c. \<exists>f \<in> set fs2. club_of h2 f = Some c}"
    using co by (simp add: completion_order_def)
  also have "\<dots> = clubs_at h2 futures2"
    unfolding fs2 using after1 by (intro clubs_of_futures) simp_all
  finally have keys: "dom m = {c. \<exists>j < length clubs. clubs ! j = c
                       \<and> ClubPlayersFuture_result w (club_wrapper j (clubs ! j)) \<noteq> []}"
    by (simp only: keys1)
  have nonempty: "\<forall>c. m c \<noteq> Some []"
    using w2 by (rule wave2_nonempty) simp
  have resolved: "resolved_for w clubs c p" if mc: "m c = Some ps" and p: "p \<in> set ps" for c ps p
  proof -
    from wave2_players [OF w2 mc p]
    obtain f a x where f: "f \<in> set (as_completed w fs2)" and a: "wrapper_of h2 f = Inr a"
      and x: "deref h2 a = Some x" and cx: "club x = Some c"
      and px: "PlayerDataFuture_result w x = Inr p"
      by auto
    from f have "f \<in> set fs2" using co by (simp add: completion_order_def)
    then obtain r where r: "r \<in> set futures2" and fr: "f = future (objects h2 ! r)"
      by (auto simp: fs2)
    from r objs have rl: "r < length (objects h2)" by blast
    have "wrapper_of h2 f = Inr r"
      unfolding fr using after1 rl by (simp add: wf_heap_wrapper_of)
    with a have "a = r" by simp
    with x rl have xr: "x = objects h2 ! r" by (simp add: deref_def)
    from r objs obtain b u k c' where b: "b < length (objects ?h1)"
      and cb: "club (objects ?h1 ! b) = Some c'"
      and u: "Inr u \<in> set (ClubPlayersFuture_result w (objects ?h1 ! b))"
      and pw: "objects h2 ! r = player_wrapper k u c'"
      by blast
    from cx xr pw have cc: "c' = c" by (simp add: player_wrapper_def)
    have bl: "b < length clubs" using b by (simp add: first_loop)
    then have ob: "objects ?h1 ! b = club_wrapper b (clubs ! b)" by (rule first_loop)
    from cb ob cc have cl: "clubs ! b = c" by (simp add: club_wrapper_def)
    from u ob cl have "Inr u \<in> set (ClubPlayersFuture_result w (club_wrapper b c))" by simp
    moreover from px xr pw cc have "PlayerDataFuture_result w (player_wrapper k u c) = Inr p" by simp
    ultimately show ?thesis
      using bl cl unfolding resolved_for_def by blast
  qed
  have iff: "(c \<in> dom m) = (\<exists>p. resolved_for w clubs c p)" for c
  proof
    assume "c \<in> dom m"
    then obtain ps where mc: "m c = Some ps" by auto
    with nonempty have "ps \<noteq> []" by auto
    then obtain p where "p \<in> set ps" by (cases ps) auto
    with mc have "resolved_for w clubs c p" by (rule resolved)
    then show "\<exists>p. resolved_for w clubs c p" ..
  next
    assume "\<exists>p. resolved_for w clubs c p"
    then obtain j u where "j < length clubs" and "clubs ! j = c"
      and "Inr u \<in> set (ClubPlayersFuture_result w (club_wrapper j c))"
      unfolding resolved_for_def by blast
    then have "j < length clubs \<and> clubs ! j = c
                 \<and> ClubPlayersFuture_result w (club_wrapper j (clubs ! j)) \<noteq> []"
      by auto
    then show "c \<in> dom m" unfolding keys by blast
  qed
  have vals: "ps \<noteq> [] \<and> (\<forall>p \<in> set ps. resolved_for w clubs c p)" if "m c = Some ps" for c ps
    using that nonempty resolved by auto
  show ?thesis
    using iff vals keys by blast
qed

theorem get_players_for_clubs_keys_witness:
  "\<exists>m. get_players_for_clubs (scenario 200 reversed) [''Arsenal'', ''Chelsea''] = Inr m
       \<and> ''Arsenal'' \<notin> dom m \<and> ''Chelsea'' \<in> dom m \<and> m ''Chelsea'' \<noteq> Some []
       \<and> (\<exists>p. resolved_for (scenario 200 reversed) [''Arsenal'', ''Chelsea''] ''Chelsea'' p)"
proof -
  let ?w = "scenario 200 reversed"
  let ?clubs = "[''Arsenal'', ''Chelsea'']"
  have co: "completion_order (as_completed ?w)"
    by (simp add: scenario_def completion_order_reversed)
  have "case get_players_for_clubs ?w ?clubs of Inl e \<Rightarrow> False | Inr m \<Rightarrow> True"
    by code_simp
  then obtain m where res: "get_players_for_clubs ?w ?clubs = Inr m"
    by (auto split: sum.splits)
  have arsenal: "ClubPlayersFuture_result ?w (club_wrapper 0 ''Arsenal'') = []"
    by code_simp
  have chelsea: "ClubPlayersFuture_result ?w (club_wrapper 1 ''Chelsea'') \<noteq> []"
    by code_simp
  note keys = get_players_for_clubs_keys [OF co res]
  have two: "j < length ?clubs \<longleftrightarrow> j = 0 \<or> j = 1" for j :: nat
    by auto
  have "''Arsenal'' \<notin> dom m"
  proof
    assume "''Arsenal'' \<in> dom m"
    with keys obtain j where j: "j < length ?clubs" and c: "?clubs ! j = ''Arsenal''"
      and ne: "ClubPlayersFuture_result ?w (club_wrapper j (?clubs ! j)) \<noteq> []"
      by blast
    from j have "j = 0 \<or> j = 1" by (simp only: two)
    then have "j = 0"
    proof
      assume "j = 0"
      then show ?thesis .
    next
      assume "j = 1"
      with c show ?thesis by simp
    qed
    with ne arsenal show False by simp
  qed
  moreover have "''Chelsea'' \<in> dom m"
  proof -
    have "1 < length ?clubs \<and> ?clubs ! 1 = ''Chelsea''
            \<and> ClubPlayersFuture_result ?w (club_wrapper 1 (?clubs ! 1)) \<noteq> []"
      using chelsea by simp
    with keys show ?thesis by blast
  qed
  moreover have "m ''Chelsea'' \<noteq> Some []"
    using keys by blast
  moreover have "\<exists>p. resolved_for ?w ?clubs ''Chelsea'' p"
    using keys \<open>''Chelsea'' \<in> dom m\<close> by blast
  ultimately show ?thesis using res by blast
qed

end
